theory Spec2Isabelle
  imports Main "HOL-Library.Sublist"
begin

section \<open>Strings of the JavaScript runtime\<close>

text \<open>
  Strings are modelled as \<open>string\<close> (lists of 8-bit characters). \<open>toLowerCase\<close> folds
  the ASCII letters \<open>A\<close>..\<open>Z\<close> and leaves every other character alone. The function of
  the runtime, \<open>String.prototype.toLowerCase\<close>, folds the letters outside ASCII as well
  (the Kelvin sign to \<open>k\<close>, for one), so this definition is that function on ASCII
  text only: a statement that rests on how a whole listing is folded is made for
  ASCII listings (\<open>ascii\<close> below).
\<close>

definition lower_char :: "char \<Rightarrow> char" where
  "lower_char c =
     (let n = (of_char c :: nat) in if 65 \<le> n \<and> n \<le> 90 then char_of (n + 32) else c)"

definition toLowerCase :: "string \<Rightarrow> string" where
  "toLowerCase s = map lower_char s"


text \<open>\<open>hay.includes(needle)\<close>: the needle occurs at some position of the haystack.\<close>

fun js_includes :: "string \<Rightarrow> string \<Rightarrow> bool" where
  "js_includes [] needle = (needle = [])"
| "js_includes (c # cs) needle = (prefix needle (c # cs) \<or> js_includes cs needle)"

text \<open>
  White space of \<open>String.prototype.trim\<close> within the 8-bit range: tab, line feed,
  vertical tab, form feed, carriage return, space and the no-break space.
\<close>

definition is_ws :: "char \<Rightarrow> bool" where
  "is_ws c = ((of_char c :: nat) \<in> {9, 10, 11, 12, 13, 32, 160})"

definition trim :: "string \<Rightarrow> string" where
  "trim s = rev (dropWhile is_ws (rev (dropWhile is_ws s)))"

text \<open>\<open>s.split('\n')\<close>: the pieces between line feeds (one piece for the empty string).\<close>

fun split_lines :: "string \<Rightarrow> string list" where
  "split_lines [] = [[]]"
| "split_lines (c # cs) =
     (if c = CHR 0x0A then [] # split_lines cs
      else (case split_lines cs of l # ls \<Rightarrow> (c # l) # ls | [] \<Rightarrow> [[c]]))"

text \<open>
  \<open>new RegExp(proc, 'i').test(s)\<close> for a pattern of literal characters and dots: a dot
  matches any character but a line terminator, a literal matches up to ASCII case.
\<close>

datatype rx = Lit char | Dot

definition rx_of_string :: "string \<Rightarrow> rx list" where
  "rx_of_string p = map (\<lambda>c. if c = CHR ''.'' then Dot else Lit c) p"

fun rx_item :: "rx \<Rightarrow> char \<Rightarrow> bool" where
  "rx_item (Lit p) c = (lower_char p = lower_char c)"
| "rx_item Dot c = (c \<noteq> CHR 0x0A \<and> c \<noteq> CHR 0x0D)"

fun rx_prefix :: "rx list \<Rightarrow> string \<Rightarrow> bool" where
  "rx_prefix [] s = True"
| "rx_prefix (r # rs) [] = False"
| "rx_prefix (r # rs) (c # cs) = (rx_item r c \<and> rx_prefix rs cs)"

fun rx_test :: "rx list \<Rightarrow> string \<Rightarrow> bool" where
  "rx_test rs [] = rx_prefix rs []"
| "rx_test rs (c # cs) = (rx_prefix rs (c # cs) \<or> rx_test rs cs)"

section \<open>The main process: environment, effects and state\<close>

text \<open>
  \<open>process.platform\<close>, the field \<open>developmentMode\<close> (set once from \<open>isDevelopment\<close>,
  that is \<open>NODE_ENV === 'development' || is.dev\<close>) and the environment variable \<open>DISABLE_SCREEN_PROTECTION\<close> are fixed for the lifetime
  of the process.
\<close>

record env =
  platform :: string
  developmentMode :: bool
  DISABLE_SCREEN_PROTECTION :: "string option"

text \<open>
  Every call of the code into the operating system or into Electron is recorded, in
  order, in a trace. Console output is not recorded.
\<close>

datatype action = AppQuit | Logout

datatype event =
    Exec string
  | SetInterval nat nat
  | ClearInterval nat
  | ShowMessageBox string
  | Do action
  | SetTimeout nat action
  | GetMediaAccessStatus
  | GetSources
  | IpcSend string
  | ToastError
  | WindowConfirm

text \<open>
  The module-level variables \<open>screenProtectionActive\<close> and
  \<open>screenCaptureCheckInterval\<close> (\<open>None\<close> is \<open>null\<close>), and the fields of the single
  \<open>ScreenCaptureProtection\<close> instance.
\<close>

record state =
  isMonitoring :: bool
  detectedProcess :: string
  screenCaptureCheckInterval :: "nat option"
  screenProtectionActive :: bool
  trace :: "event list"

definition initial :: state where
  "initial = \<lparr>isMonitoring = False, detectedProcess = [], screenCaptureCheckInterval = None,
     screenProtectionActive = False, trace = []\<rparr>"

text \<open>
  The operating system is an oracle: \<open>os n cmd\<close> is what the command \<open>cmd\<close> prints when
  it is run as the \<open>n\<close>-th effect of the process, \<open>None\<close> when \<open>execAsync\<close> rejects (the
  command is unavailable or exits with a non-zero status). Two runs of one command
  may print different listings.
\<close>

type_synonym os = "nat \<Rightarrow> string \<Rightarrow> string option"

definition execAsync :: "os \<Rightarrow> string \<Rightarrow> state \<Rightarrow> string option \<times> state" where
  "execAsync os cmd st = (os (length (trace st)) cmd, st\<lparr>trace := trace st @ [Exec cmd]\<rparr>)"

section \<open>Process scanner\<close>

definition suspiciousProcesses :: "string list" where
  "suspiciousProcesses =
     [''obs'', ''obs64'', ''obs-studio'', ''streamlabs'', ''xsplit'', ''bandicam'', ''fraps'',
      ''camtasia'', ''snagit'', ''screenpresso'', ''faststone'', ''picpick'']"

definition criticalProcesses :: "string list" where
  "criticalProcesses = [''obs'', ''obs64'', ''obs-studio'', ''bandicam'', ''fraps'']"

definition listing_command :: "env \<Rightarrow> string" where
  "listing_command e = (if platform e = ''win32'' then ''tasklist'' else ''ps aux'')"

text \<open>\<open>checkSuspiciousProcesses\<close>: \<open>Array.prototype.some\<close> over the fixed list.\<close>

definition checkSuspiciousProcesses :: "env \<Rightarrow> os \<Rightarrow> state \<Rightarrow> bool \<times> state" where
  "checkSuspiciousProcesses e os st =
     (case execAsync os (listing_command e) st of
        (None, st') \<Rightarrow> (False, st')
      | (Some stdout, st') \<Rightarrow>
          (let processes = toLowerCase stdout
           in (list_ex (\<lambda>proc. js_includes processes proc) suspiciousProcesses, st')))"

text \<open>
  \<open>checkSpecificProcesses\<close>: \<open>Array.prototype.find\<close> gives the first matching name, and
  \<open>if (detected)\<close> tests that string for truthiness: the empty string is falsy.
\<close>

definition checkSpecificProcesses :: "env \<Rightarrow> os \<Rightarrow> string list \<Rightarrow> state \<Rightarrow> bool \<times> state" where
  "checkSpecificProcesses e os processNames st =
     (case execAsync os (listing_command e) st of
        (None, st') \<Rightarrow> (False, st')
      | (Some stdout, st') \<Rightarrow>
          (let processes = toLowerCase stdout
           in (case find (\<lambda>proc. js_includes processes proc) processNames of
                 None \<Rightarrow> (False, st')
               | Some detected \<Rightarrow> (detected \<noteq> [], st'))))"

text \<open>
  The specification's reading of a match: the signature \<open>s\<close> is a case-insensitive
  substring of the listing \<open>P\<close> when some window of \<open>P\<close> equals \<open>s\<close> character by
  character up to case.
\<close>

definition ci_substring :: "string \<Rightarrow> string \<Rightarrow> bool" where
  "ci_substring s P =
     (\<exists>pre mid post. P = pre @ mid @ post \<and> list_all2 (\<lambda>a b. lower_char a = lower_char b) mid s)"

section \<open>Platform probes\<close>

definition dq :: char where
  "dq = CHR 0x22"

definition screenRecordingProcesses :: "string list" where
  "screenRecordingProcesses =
     [''screencapture'', ''Screenshot'', ''QuickTime Player'', ''CleanMyMac'',
      ''CleanMaster- Remove Junk Files'', ''Keka'', ''The Unarchiver'',
      ''ScreenSearch'', ''Skitch'', ''Snagit'', ''CloudApp'', ''Droplr'',
      ''Monosnap'', ''LightShot'', ''Gyazo'', ''Capto'']"

definition pgrep_command :: "string \<Rightarrow> string" where
  "pgrep_command p = ''pgrep -f '' @ [dq] @ p @ [dq]"

text \<open>
  Method 1 of \<open>detectMacOSScreenCapture\<close>: the \<open>for\<close> loop over the named processes. A
  failing \<open>pgrep\<close> is caught and the loop goes on.
\<close>

fun pgrep_loop :: "os \<Rightarrow> string list \<Rightarrow> state \<Rightarrow> bool \<times> state" where
  "pgrep_loop os [] st = (False, st)"
| "pgrep_loop os (p # ps) st =
     (case execAsync os (pgrep_command p) st of
        (None, st') \<Rightarrow> pgrep_loop os ps st'
      | (Some stdout, st') \<Rightarrow>
          if length (trim stdout) > 0 then (True, st') else pgrep_loop os ps st')"

text \<open>Methods 2 and 3: a command whose output, trimmed, is not empty.\<close>

definition nonblank_output :: "os \<Rightarrow> string \<Rightarrow> state \<Rightarrow> bool \<times> state" where
  "nonblank_output os cmd st =
     (case execAsync os cmd st of
        (None, st') \<Rightarrow> (False, st')
      | (Some stdout, st') \<Rightarrow> (length (trim stdout) > 0, st'))"

definition lsof_grep_command :: string where
  "lsof_grep_command = ''lsof | grep '' @ [dq] @ ''Screen Capture'' @ [dq]"

definition ps_grep_command :: string where
  "ps_grep_command = ''ps aux | grep -i screenshot | grep -v grep''"

definition lsof_console_command :: string where
  "lsof_console_command = ''lsof /dev/console 2>/dev/null || true''"

text \<open>Method 4: lines of the raw output that name \<open>screencapture\<close> or \<open>Screenshot\<close>.\<close>

definition console_monitoring :: "os \<Rightarrow> state \<Rightarrow> bool \<times> state" where
  "console_monitoring os st =
     (case execAsync os lsof_console_command st of
        (None, st') \<Rightarrow> (False, st')
      | (Some stdout, st') \<Rightarrow>
          (let lines = filter (\<lambda>line. js_includes line ''screencapture'' \<or> js_includes line ''Screenshot'')
                         (split_lines stdout)
           in (length lines > 0, st')))"

definition detectMacOSScreenCapture :: "os \<Rightarrow> state \<Rightarrow> bool \<times> state" where
  "detectMacOSScreenCapture os st =
     (let (m1, st1) = pgrep_loop os screenRecordingProcesses st in
      if m1 then (True, st1) else
      let (m2, st2) = nonblank_output os lsof_grep_command st1 in
      if m2 then (True, st2) else
      let (m3, st3) = nonblank_output os ps_grep_command st2 in
      if m3 then (True, st3) else
      let (m4, st4) = console_monitoring os st3 in
      if m4 then (True, st4) else (False, st4))"

definition captureProcesses :: "string list" where
  "captureProcesses = [''winlogon.exe'']"

definition wmic_command :: string where
  "wmic_command = ''wmic process get name,processid''"

definition detectWindowsScreenCapture :: "os \<Rightarrow> state \<Rightarrow> bool \<times> state" where
  "detectWindowsScreenCapture os st =
     (case execAsync os wmic_command st of
        (None, st') \<Rightarrow> (False, st')
      | (Some stdout, st') \<Rightarrow>
          (let processes = toLowerCase stdout
           in (case find (\<lambda>proc. rx_test (rx_of_string proc) processes) captureProcesses of
                 None \<Rightarrow> (False, st')
               | Some detectedProc \<Rightarrow>
                   if detectedProc \<noteq> [] then (True, st'\<lparr>detectedProcess := detectedProc\<rparr>)
                   else (False, st'))))"

text \<open>Every command the probe of \<open>darwin\<close> can run.\<close>

definition probe_commands :: "string list" where
  "probe_commands =
     map pgrep_command screenRecordingProcesses
       @ [lsof_grep_command, ps_grep_command, lsof_console_command]"

section \<open>One detection pass\<close>

text \<open>
  \<open>detectScreenCapture\<close>. Every callee catches its own failures, so the outer
  \<open>catch\<close> is never entered.
\<close>

definition detectScreenCapture :: "env \<Rightarrow> os \<Rightarrow> state \<Rightarrow> bool \<times> state" where
  "detectScreenCapture e os st =
     (let (criticalProcessDetected, st1) = checkSpecificProcesses e os criticalProcesses st in
      if criticalProcessDetected then (True, st1) else
      let (macOSCapture, st2) =
            (if platform e = ''darwin'' then detectMacOSScreenCapture os st1 else (False, st1)) in
      if macOSCapture then (True, st2) else
      if developmentMode e then (False, st2) else
      let (processDetected, st3) = checkSuspiciousProcesses e os st2 in
      if processDetected then (True, st3) else
      if platform e = ''win32'' then detectWindowsScreenCapture os st3 else (False, st3))"

section \<open>Permission broker\<close>

text \<open>
  \<open>status\<close> is what \<open>systemPreferences.getMediaAccessStatus('screen')\<close> answers and
  \<open>sources\<close> the number of sources \<open>desktopCapturer.getSources\<close> resolves with; \<open>None\<close>
  when the call throws.
\<close>

definition checkMacOSScreenRecordingPermission ::
    "env \<Rightarrow> string option \<Rightarrow> state \<Rightarrow> bool \<times> state" where
  "checkMacOSScreenRecordingPermission e status st =
     (if platform e \<noteq> ''darwin'' then (True, st)
      else (case status of
              Some s \<Rightarrow> (s = ''granted'', st\<lparr>trace := trace st @ [GetMediaAccessStatus]\<rparr>)
            | None \<Rightarrow> (False, st\<lparr>trace := trace st @ [GetMediaAccessStatus]\<rparr>)))"

definition requestMacOSScreenRecordingPermission ::
    "env \<Rightarrow> nat option \<Rightarrow> state \<Rightarrow> bool \<times> state" where
  "requestMacOSScreenRecordingPermission e sources st =
     (if platform e \<noteq> ''darwin'' then (True, st)
      else (case sources of
              Some n \<Rightarrow> (n > 0, st\<lparr>trace := trace st @ [GetSources]\<rparr>)
            | None \<Rightarrow> (False, st\<lparr>trace := trace st @ [GetSources]\<rparr>)))"

text \<open>The handlers of \<open>check-screen-permission\<close> and \<open>request-screen-permission\<close>.\<close>

definition ipc_check_screen_permission :: "env \<Rightarrow> string option \<Rightarrow> state \<Rightarrow> bool \<times> state" where
  "ipc_check_screen_permission e status st =
     (if platform e = ''darwin'' then checkMacOSScreenRecordingPermission e status st
      else (True, st))"

definition ipc_request_screen_permission :: "env \<Rightarrow> nat option \<Rightarrow> state \<Rightarrow> bool \<times> state" where
  "ipc_request_screen_permission e sources st =
     (if platform e = ''darwin'' then requestMacOSScreenRecordingPermission e sources st
      else (True, st))"

section \<open>Detection cycle scheduler\<close>

text \<open>
  \<open>setInterval\<close> answers a timer object that no earlier call answered: the handle is
  the position of the call in the trace.
\<close>

definition startMonitoring :: "env \<Rightarrow> state \<Rightarrow> state" where
  "startMonitoring e st =
     (if isMonitoring st then st
      else if DISABLE_SCREEN_PROTECTION e = Some ''true'' then st\<lparr>isMonitoring := True\<rparr>
      else (let checkInterval = (if developmentMode e then 5000 else 2000);
                h = length (trace st)
            in st\<lparr>isMonitoring := True,
                  screenCaptureCheckInterval := Some h,
                  trace := trace st @ [SetInterval h checkInterval]\<rparr>))"

definition stopMonitoring :: "state \<Rightarrow> state" where
  "stopMonitoring st =
     (if \<not> isMonitoring st then st
      else (case screenCaptureCheckInterval st of
              None \<Rightarrow> st\<lparr>isMonitoring := False\<rparr>
            | Some h \<Rightarrow> st\<lparr>isMonitoring := False,
                            screenCaptureCheckInterval := None,
                            trace := trace st @ [ClearInterval h]\<rparr>))"

section \<open>Response to a detection\<close>

definition nl :: char where
  "nl = CHR 0x0A"

text \<open>
  \<open>handleScreenCaptureDetected\<close>; \<open>response\<close> is the index of the button the user
  chose in the message box (0 is OK, 1 is Cancel). The event of the message box
  carries the part of its text that varies, \<open>detectedInfo\<close>.
\<close>

definition handleScreenCaptureDetected :: "nat \<Rightarrow> state \<Rightarrow> state" where
  "handleScreenCaptureDetected response st =
     (let st1 = stopMonitoring st;
          detectedInfo = (if detectedProcess st1 \<noteq> []
                          then [nl, nl] @ ''Detected process: '' @ detectedProcess st1 else []);
          st2 = st1\<lparr>trace := trace st1 @ [ShowMessageBox detectedInfo]\<rparr>
      in if response = 0 then st2\<lparr>trace := trace st2 @ [Do AppQuit]\<rparr>
         else st2\<lparr>trace := trace st2 @ [SetTimeout 1000 AppQuit]\<rparr>)"

text \<open>The callback given to \<open>setInterval\<close>: one pass, and the response when it is positive.\<close>

definition intervalCallback :: "env \<Rightarrow> os \<Rightarrow> nat \<Rightarrow> state \<Rightarrow> state" where
  "intervalCallback e os response st =
     (let (captureDetected, st1) = detectScreenCapture e os st
      in if captureDetected then handleScreenCaptureDetected response st1 else st1)"

section \<open>Handlers of the protection session\<close>

record ipc_result =
  success :: bool
  error :: "string option"

definition ipc_start_screen_protection :: "env \<Rightarrow> state \<Rightarrow> ipc_result \<times> state" where
  "ipc_start_screen_protection e st =
     (\<lparr>success = True, error = None\<rparr>, startMonitoring e (st\<lparr>screenProtectionActive := True\<rparr>))"

definition ipc_stop_screen_protection :: "state \<Rightarrow> ipc_result \<times> state" where
  "ipc_stop_screen_protection st =
     (\<lparr>success = True, error = None\<rparr>, stopMonitoring (st\<lparr>screenProtectionActive := False\<rparr>))"

definition ipc_get_screen_protection_status :: "env \<Rightarrow> state \<Rightarrow> bool \<times> string" where
  "ipc_get_screen_protection_status e st = (screenProtectionActive st, platform e)"

section \<open>The renderer's hook\<close>

text \<open>
  \<open>handleScreenshotDetected\<close> of \<open>useScreenshotProtection\<close>: a toast, the blocking
  \<open>window.confirm\<close> (its answer is \<open>userConfirmed\<close>), and the logout after a delay.
\<close>

definition handleScreenshotDetected :: "bool \<Rightarrow> event list" where
  "handleScreenshotDetected userConfirmed =
     [ToastError, WindowConfirm, SetTimeout (if userConfirmed then 500 else 100) Logout]"

text \<open>
  The listener the hook registers with \<open>ipcRenderer.on\<close> on two channels; it takes no
  argument from the message.
\<close>

definition ipc_listener :: "string \<Rightarrow> bool \<Rightarrow> event list" where
  "ipc_listener channel userConfirmed =
     (if channel = ''screen-capture-detected'' \<or> channel = ''screenshot-detected''
      then handleScreenshotDetected userConfirmed else [])"

text \<open>
  \<open>startProtection\<close> of the hook: \<open>active\<close> is \<open>isProtectionActiveRef.current\<close>, \<open>ipc\<close>
  whether \<open>window.electron.ipcRenderer.invoke\<close> exists.
\<close>

definition startProtection :: "bool \<Rightarrow> env \<Rightarrow> bool \<times> state \<Rightarrow> bool \<times> state" where
  "startProtection ipc e x =
     (case x of (active, st) \<Rightarrow>
        if active then (active, st)
        else if ipc then
          (let (r, st') = ipc_start_screen_protection e st
           in if success r then (True, st') else (active, st'))
        else (True, st))"

section \<open>Reading a trace\<close>

text \<open>The interval timers of the runtime that are active after a trace.\<close>

fun timer_event :: "event \<Rightarrow> nat list \<Rightarrow> nat list" where
  "timer_event (SetInterval h ms) A = A @ [h]"
| "timer_event (ClearInterval h) A = removeAll h A"
| "timer_event ev A = A"

definition active_timers :: "event list \<Rightarrow> nat list" where
  "active_timers tr = fold timer_event tr []"

text \<open>The events between two states of one run.\<close>

definition emitted :: "state \<Rightarrow> state \<Rightarrow> event list" where
  "emitted st st' = drop (length (trace st)) (trace st')"

text \<open>
  The delay after which a trace first carries out an action: at once, or by the first
  \<open>setTimeout\<close> that schedules it.
\<close>

fun delay_until :: "action \<Rightarrow> event list \<Rightarrow> nat option" where
  "delay_until a [] = None"
| "delay_until a (Do b # evs) = (if b = a then Some 0 else delay_until a evs)"
| "delay_until a (SetTimeout d b # evs) = (if b = a then Some d else delay_until a evs)"
| "delay_until a (ev # evs) = delay_until a evs"

definition notifications :: "event list \<Rightarrow> nat" where
  "notifications tr = length (filter (\<lambda>ev. case ev of IpcSend c \<Rightarrow> True | _ \<Rightarrow> False) tr)"

definition process_listings :: "event list \<Rightarrow> nat" where
  "process_listings tr = length (filter (\<lambda>ev. case ev of Exec c \<Rightarrow> True | _ \<Rightarrow> False) tr)"

text \<open>
  Checks of a whole trace, read from left to right with the timers \<open>A\<close> active so
  far: the message box is only ever shown while no interval timer is active, and
  never more than one interval timer is active.
\<close>

fun prompts_stopped :: "nat list \<Rightarrow> event list \<Rightarrow> bool" where
  "prompts_stopped A [] = True"
| "prompts_stopped A (ShowMessageBox info # evs) = (A = [] \<and> prompts_stopped A evs)"
| "prompts_stopped A (ev # evs) = prompts_stopped (timer_event ev A) evs"

fun at_most_one :: "nat list \<Rightarrow> event list \<Rightarrow> bool" where
  "at_most_one A [] = (length A \<le> 1)"
| "at_most_one A (ev # evs) = (length A \<le> 1 \<and> at_most_one (timer_event ev A) evs)"

text \<open>
  The scheduler's bookkeeping agrees with the runtime: the timers that are active are
  exactly the one the handle names, and a handle is only held while monitoring.
\<close>

definition sched_inv :: "state \<Rightarrow> bool" where
  "sched_inv st =
     (active_timers (trace st) =
        (case screenCaptureCheckInterval st of None \<Rightarrow> [] | Some h \<Rightarrow> [h])
      \<and> (screenCaptureCheckInterval st = None \<or> isMonitoring st))"

text \<open>A step that only ran commands: nothing changed but the trace and \<open>detectedProcess\<close>.\<close>

definition execs_only :: "state \<Rightarrow> state \<Rightarrow> bool" where
  "execs_only st st' =
     (\<exists>cmds dp. st' = st\<lparr>detectedProcess := dp, trace := trace st @ map Exec cmds\<rparr>)"

section \<open>Runs of the main process\<close>

text \<open>
  What happens to the scheduler: the two handlers of the session, and an interval
  timer firing (with the answer the user would give to the message box). The
  runtime calls the callback only for a timer that is active. A callback is taken
  as one step: its pass and its response run before the next event is handled.
\<close>

datatype op = IpcStart | IpcStop | TimerFires nat

fun step :: "env \<Rightarrow> os \<Rightarrow> op \<Rightarrow> state \<Rightarrow> state" where
  "step e os IpcStart st = snd (ipc_start_screen_protection e st)"
| "step e os IpcStop st = snd (ipc_stop_screen_protection st)"
| "step e os (TimerFires response) st =
     (if active_timers (trace st) \<noteq> [] then intervalCallback e os response st else st)"

definition run :: "env \<Rightarrow> os \<Rightarrow> op list \<Rightarrow> state \<Rightarrow> state" where
  "run e os ops st = fold (step e os) ops st"

section \<open>Example environments\<close>

definition win_prod :: env where
  "win_prod = \<lparr>platform = ''win32'', developmentMode = False, DISABLE_SCREEN_PROTECTION = None\<rparr>"

definition win_dev :: env where
  "win_dev = \<lparr>platform = ''win32'', developmentMode = True, DISABLE_SCREEN_PROTECTION = None\<rparr>"

definition linux_prod :: env where
  "linux_prod = \<lparr>platform = ''linux'', developmentMode = False, DISABLE_SCREEN_PROTECTION = None\<rparr>"

definition mac_dev :: env where
  "mac_dev = \<lparr>platform = ''darwin'', developmentMode = True, DISABLE_SCREEN_PROTECTION = None\<rparr>"

definition linux_disabled :: env where
  "linux_disabled =
     \<lparr>platform = ''linux'', developmentMode = False, DISABLE_SCREEN_PROTECTION = Some ''true''\<rparr>"

text \<open>An operating system where every command prints the same text.\<close>

definition os_prints :: "string \<Rightarrow> os" where
  "os_prints out = (\<lambda>n cmd. Some out)"

section \<open>Facts about strings\<close>

lemma js_includes_iff: "js_includes hay needle \<longleftrightarrow> (\<exists>pre post. hay = pre @ needle @ post)"
proof (induction hay)
  case Nil
  then show ?case by auto
next
  case (Cons c cs)
  have "(\<exists>pre post. c # cs = pre @ needle @ post) \<longleftrightarrow>
        prefix needle (c # cs) \<or> (\<exists>pre post. cs = pre @ needle @ post)"
  proof
    assume "\<exists>pre post. c # cs = pre @ needle @ post"
    then obtain pre post where eq: "c # cs = pre @ needle @ post" by blast
    show "prefix needle (c # cs) \<or> (\<exists>pre post. cs = pre @ needle @ post)"
    proof (cases pre)
      case Nil
      with eq show ?thesis by (auto simp: prefix_def)
    next
      case (Cons p ps)
      with eq have "cs = ps @ needle @ post" by simp
      then show ?thesis by blast
    qed
  next
    assume "prefix needle (c # cs) \<or> (\<exists>pre post. cs = pre @ needle @ post)"
    then show "\<exists>pre post. c # cs = pre @ needle @ post"
    proof
      assume "prefix needle (c # cs)"
      then obtain post where "c # cs = needle @ post" by (auto simp: prefix_def)
      then have "c # cs = [] @ needle @ post" by simp
      then show ?thesis by blast
    next
      assume "\<exists>pre post. cs = pre @ needle @ post"
      then obtain pre post where "cs = pre @ needle @ post" by blast
      then have "c # cs = (c # pre) @ needle @ post" by simp
      then show ?thesis by blast
    qed
  qed
  with Cons show ?case by simp
qed

lemma lower_char_idem: "lower_char (lower_char c) = lower_char c"
  by (auto simp: lower_char_def Let_def)

lemma toLowerCase_idem: "toLowerCase (toLowerCase s) = toLowerCase s"
  by (simp add: toLowerCase_def lower_char_idem)

lemma ci_substring_iff: "ci_substring s P \<longleftrightarrow> js_includes (toLowerCase P) (toLowerCase s)"
proof
  assume "ci_substring s P"
  then obtain pre mid post where P: "P = pre @ mid @ post"
    and m: "list_all2 (\<lambda>a b. lower_char a = lower_char b) mid s"
    by (auto simp: ci_substring_def)
  from m have "map lower_char mid = map lower_char s"
    by (induction rule: list_all2_induct) auto
  with P have "toLowerCase P = toLowerCase pre @ toLowerCase s @ toLowerCase post"
    by (simp add: toLowerCase_def)
  then show "js_includes (toLowerCase P) (toLowerCase s)"
    unfolding js_includes_iff by blast
next
  assume "js_includes (toLowerCase P) (toLowerCase s)"
  then obtain a b where ab: "map lower_char P = a @ map lower_char s @ b"
    unfolding js_includes_iff toLowerCase_def by blast
  from ab [unfolded map_eq_append_conv] obtain pre rest where P1: "P = pre @ rest"
    and r: "map lower_char s @ b = map lower_char rest"
    by blast
  from r [unfolded append_eq_map_conv] obtain mid post where P2: "rest = mid @ post"
    and ms: "map lower_char mid = map lower_char s"
    by metis
  from ms have "list_all2 (\<lambda>a b. lower_char a = lower_char b) mid s"
    by (simp add: list_all2_conv_all_nth map_equality_iff)
  with P1 P2 show "ci_substring s P"
    unfolding ci_substring_def by blast
qed

section \<open>Facts about the process scanner\<close>

lemma execAsync_fst: "fst (execAsync os cmd st) = os (length (trace st)) cmd"
  by (simp add: execAsync_def)

lemma execAsync_snd: "snd (execAsync os cmd st) = st\<lparr>trace := trace st @ [Exec cmd]\<rparr>"
  by (simp add: execAsync_def)

lemma emitted_append: "trace st' = trace st @ evs \<Longrightarrow> emitted st st' = evs"
  by (simp add: emitted_def)

lemma checkSpecific_snd:
  "snd (checkSpecificProcesses e os S st) = st\<lparr>trace := trace st @ [Exec (listing_command e)]\<rparr>"
  by (simp add: checkSpecificProcesses_def execAsync_def Let_def split: option.splits)

lemma checkSuspicious_snd:
  "snd (checkSuspiciousProcesses e os st) = st\<lparr>trace := trace st @ [Exec (listing_command e)]\<rparr>"
  by (simp add: checkSuspiciousProcesses_def execAsync_def Let_def split: option.splits)

lemma find_truthy:
  assumes "\<forall>s\<in>set S. s \<noteq> []"
  shows "(case find Q S of None \<Rightarrow> False | Some d \<Rightarrow> d \<noteq> []) = (\<exists>s\<in>set S. Q s)"
  using assms by (induction S) auto

lemma checkSpecific_fst:
  assumes "\<forall>s\<in>set S. s \<noteq> []"
  shows "fst (checkSpecificProcesses e os S st) =
           (case os (length (trace st)) (listing_command e) of
              None \<Rightarrow> False
            | Some P \<Rightarrow> \<exists>s\<in>set S. js_includes (toLowerCase P) s)"
proof (cases "os (length (trace st)) (listing_command e)")
  case None
  then show ?thesis by (simp add: checkSpecificProcesses_def execAsync_def)
next
  case (Some P)
  then have "fst (checkSpecificProcesses e os S st) =
      (case find (\<lambda>proc. js_includes (toLowerCase P) proc) S of None \<Rightarrow> False | Some d \<Rightarrow> d \<noteq> [])"
    by (simp add: checkSpecificProcesses_def execAsync_def Let_def split: option.splits)
  then show ?thesis using Some by (simp add: find_truthy [OF assms])
qed


lemma lower_sig: "toLowerCase s = s \<Longrightarrow> js_includes (toLowerCase P) s = ci_substring s P"
  by (simp add: ci_substring_iff)


lemma critical_lower: "\<forall>s\<in>set criticalProcesses. s \<noteq> [] \<and> toLowerCase s = s"
  by code_simp

section \<open>Facts about traces\<close>

lemma active_timers_append: "active_timers (tr @ evs) = fold timer_event evs (active_timers tr)"
  by (simp add: active_timers_def)

lemma fold_timer_execs: "fold timer_event (map Exec cmds) A = A"
  by (induction cmds) auto

lemma prompts_stopped_append:
  "prompts_stopped A (xs @ ys) = (prompts_stopped A xs \<and> prompts_stopped (fold timer_event xs A) ys)"
proof (induction xs arbitrary: A)
  case Nil
  then show ?case by simp
next
  case (Cons x xs)
  then show ?case by (cases x) auto
qed

lemma at_most_one_append:
  "at_most_one A (xs @ ys) = (at_most_one A xs \<and> at_most_one (fold timer_event xs A) ys)"
proof (induction xs arbitrary: A)
  case Nil
  then show ?case by (cases ys) auto
next
  case (Cons x xs)
  then show ?case by auto
qed

lemma prompts_stopped_execs: "prompts_stopped A (map Exec cmds)"
  by (induction cmds) auto

lemma at_most_one_execs: "at_most_one A (map Exec cmds) = (length A \<le> 1)"
  by (induction cmds) auto

lemma notifications_append: "notifications (xs @ ys) = notifications xs + notifications ys"
  by (simp add: notifications_def)

lemma notifications_execs: "notifications (map Exec cmds) = 0"
  by (induction cmds) (auto simp: notifications_def)

lemma process_listings_append:
  "process_listings (xs @ ys) = process_listings xs + process_listings ys"
  by (simp add: process_listings_def)

section \<open>Steps that only run commands\<close>

lemma execs_only_refl: "execs_only st st"
proof -
  have "st = st\<lparr>detectedProcess := detectedProcess st, trace := trace st @ map Exec []\<rparr>"
    by simp
  then show ?thesis unfolding execs_only_def by blast
qed

lemma execs_only_trans:
  assumes "execs_only a b" and "execs_only b c"
  shows "execs_only a c"
proof -
  from assms(1) obtain c1 d1 where b: "b = a\<lparr>detectedProcess := d1, trace := trace a @ map Exec c1\<rparr>"
    unfolding execs_only_def by blast
  from assms(2) obtain c2 d2 where c: "c = b\<lparr>detectedProcess := d2, trace := trace b @ map Exec c2\<rparr>"
    unfolding execs_only_def by blast
  have "c = a\<lparr>detectedProcess := d2, trace := trace a @ map Exec (c1 @ c2)\<rparr>"
    by (simp add: b c)
  then show ?thesis unfolding execs_only_def by blast
qed

lemma execs_only_exec: "execs_only st (st\<lparr>trace := trace st @ [Exec cmd]\<rparr>)"
proof -
  have "st\<lparr>trace := trace st @ [Exec cmd]\<rparr> =
        st\<lparr>detectedProcess := detectedProcess st, trace := trace st @ map Exec [cmd]\<rparr>"
    by simp
  then show ?thesis unfolding execs_only_def by blast
qed

lemma execs_only_detected:
  "execs_only st (st\<lparr>trace := trace st @ [Exec cmd], detectedProcess := dp\<rparr>)"
proof -
  have "st\<lparr>trace := trace st @ [Exec cmd], detectedProcess := dp\<rparr> =
        st\<lparr>detectedProcess := dp, trace := trace st @ map Exec [cmd]\<rparr>"
    by simp
  then show ?thesis unfolding execs_only_def by blast
qed

lemma execs_only_execAsync: "execs_only st (snd (execAsync os cmd st))"
  by (simp add: execAsync_def execs_only_exec)

lemma execs_only_checkSpecific: "execs_only st (snd (checkSpecificProcesses e os S st))"
  by (simp add: checkSpecific_snd execs_only_exec)

lemma execs_only_checkSuspicious: "execs_only st (snd (checkSuspiciousProcesses e os st))"
  by (simp add: checkSuspicious_snd execs_only_exec)

lemma execs_only_pgrep_loop: "execs_only st (snd (pgrep_loop os ps st))"
proof (induction ps arbitrary: st)
  case Nil
  then show ?case by (simp add: execs_only_refl)
next
  case (Cons p ps)
  have step: "execs_only st (st\<lparr>trace := trace st @ [Exec (pgrep_command p)]\<rparr>)"
    by (rule execs_only_exec)
  show ?case
    using execs_only_trans [OF step Cons.IH] step
    by (simp add: execAsync_def split: option.splits)
qed

lemma execs_only_nonblank: "execs_only st (snd (nonblank_output os cmd st))"
  by (simp add: nonblank_output_def execAsync_def execs_only_exec split: option.splits)

lemma execs_only_console: "execs_only st (snd (console_monitoring os st))"
  by (simp add: console_monitoring_def execAsync_def execs_only_exec Let_def split: option.splits)

lemma execs_only_macOS: "execs_only st (snd (detectMacOSScreenCapture os st))"
proof -
  let ?s1 = "snd (pgrep_loop os screenRecordingProcesses st)"
  let ?s2 = "snd (nonblank_output os lsof_grep_command ?s1)"
  let ?s3 = "snd (nonblank_output os ps_grep_command ?s2)"
  let ?s4 = "snd (console_monitoring os ?s3)"
  have 1: "execs_only st ?s1" by (rule execs_only_pgrep_loop)
  have 2: "execs_only st ?s2" by (rule execs_only_trans [OF 1 execs_only_nonblank])
  have 3: "execs_only st ?s3" by (rule execs_only_trans [OF 2 execs_only_nonblank])
  have 4: "execs_only st ?s4" by (rule execs_only_trans [OF 3 execs_only_console])
  show ?thesis
    using 1 2 3 4 by (simp add: detectMacOSScreenCapture_def Let_def split_beta)
qed

lemma execs_only_windows: "execs_only st (snd (detectWindowsScreenCapture os st))"
  by (simp add: detectWindowsScreenCapture_def execAsync_def execs_only_exec execs_only_detected
      Let_def split: option.splits)

lemma execs_only_detect: "execs_only st (snd (detectScreenCapture e os st))"
proof -
  let ?s1 = "snd (checkSpecificProcesses e os criticalProcesses st)"
  let ?s2 = "if platform e = ''darwin'' then snd (detectMacOSScreenCapture os ?s1) else ?s1"
  let ?s3 = "snd (checkSuspiciousProcesses e os ?s2)"
  let ?s4 = "snd (detectWindowsScreenCapture os ?s3)"
  have 1: "execs_only st ?s1" by (rule execs_only_checkSpecific)
  have 2: "execs_only st ?s2"
    using 1 execs_only_trans [OF 1 execs_only_macOS] by simp
  have 3: "execs_only st ?s3" by (rule execs_only_trans [OF 2 execs_only_checkSuspicious])
  have 4: "execs_only st ?s4" by (rule execs_only_trans [OF 3 execs_only_windows])
  show ?thesis
  proof (cases "platform e = ''darwin''")
    case True
    with 1 2 3 4 show ?thesis by (simp add: detectScreenCapture_def Let_def split_beta)
  next
    case False
    with 1 2 3 4 show ?thesis by (simp add: detectScreenCapture_def Let_def split_beta)
  qed
qed

section \<open>Facts about the response\<close>

lemma stopMonitoring_trace:
  "trace (stopMonitoring st) =
     trace st @ (if isMonitoring st
                 then (case screenCaptureCheckInterval st of None \<Rightarrow> [] | Some h \<Rightarrow> [ClearInterval h])
                 else [])"
  by (simp add: stopMonitoring_def split: option.splits)

lemma stopMonitoring_isMonitoring: "isMonitoring (stopMonitoring st) = False"
  by (simp add: stopMonitoring_def split: option.splits)

lemma handle_trace:
  "trace (handleScreenCaptureDetected response st) =
     trace (stopMonitoring st)
       @ [ShowMessageBox (if detectedProcess st \<noteq> []
                          then [nl, nl] @ ''Detected process: '' @ detectedProcess st else []),
          if response = 0 then Do AppQuit else SetTimeout 1000 AppQuit]"
  by (simp add: handleScreenCaptureDetected_def Let_def stopMonitoring_def split: option.splits)

lemma handle_isMonitoring: "isMonitoring (handleScreenCaptureDetected response st) = False"
  by (simp add: handleScreenCaptureDetected_def Let_def stopMonitoring_isMonitoring)

lemma handle_delay:
  "delay_until AppQuit (emitted st (handleScreenCaptureDetected response st)) =
     Some (if response = 0 then 0 else 1000)"
  by (simp add: emitted_def handle_trace stopMonitoring_trace split: option.splits)

lemma renderer_delay:
  "delay_until Logout (handleScreenshotDetected userConfirmed) =
     Some (if userConfirmed then 500 else 100)"
  by (simp add: handleScreenshotDetected_def)

section \<open>Facts about the scheduler\<close>

lemma startMonitoring_idem: "isMonitoring st \<Longrightarrow> startMonitoring e st = st"
  by (simp add: startMonitoring_def)

lemma stopMonitoring_idem: "\<not> isMonitoring st \<Longrightarrow> stopMonitoring st = st"
  by (simp add: stopMonitoring_def)

lemma startMonitoring_isMonitoring: "isMonitoring (startMonitoring e st)"
  by (simp add: startMonitoring_def Let_def)

lemma startMonitoring_trace:
  "trace (startMonitoring e st) =
     trace st @ (if isMonitoring st \<or> DISABLE_SCREEN_PROTECTION e = Some ''true'' then []
                 else [SetInterval (length (trace st)) (if developmentMode e then 5000 else 2000)])"
  by (simp add: startMonitoring_def Let_def)

lemma sched_inv_initial: "sched_inv initial"
  by (simp add: sched_inv_def initial_def active_timers_def)

lemma sched_inv_start: "sched_inv st \<Longrightarrow> sched_inv (startMonitoring e st)"
  by (auto simp: sched_inv_def startMonitoring_def Let_def active_timers_append
      split: option.splits)

lemma sched_inv_stop: "sched_inv st \<Longrightarrow> sched_inv (stopMonitoring st)"
  by (auto simp: sched_inv_def stopMonitoring_def active_timers_append split: option.splits)

lemma sched_inv_field_update [simp]:
  "sched_inv (st\<lparr>screenProtectionActive := b\<rparr>) = sched_inv st"
  "sched_inv (st\<lparr>detectedProcess := dp\<rparr>) = sched_inv st"
  by (simp_all add: sched_inv_def)

lemma execs_only_fields:
  assumes "execs_only st st'"
  shows "isMonitoring st' = isMonitoring st"
    and "screenCaptureCheckInterval st' = screenCaptureCheckInterval st"
    and "screenProtectionActive st' = screenProtectionActive st"
    and "\<exists>cmds. trace st' = trace st @ map Exec cmds"
  using assms unfolding execs_only_def by auto

lemma execs_only_active_timers:
  "execs_only st st' \<Longrightarrow> active_timers (trace st') = active_timers (trace st)"
  by (auto simp: execs_only_def active_timers_append fold_timer_execs)

lemma sched_inv_execs: "execs_only st st' \<Longrightarrow> sched_inv st \<Longrightarrow> sched_inv st'"
  by (simp add: sched_inv_def execs_only_active_timers execs_only_fields)

lemma sched_inv_handle: "sched_inv st \<Longrightarrow> sched_inv (handleScreenCaptureDetected response st)"
proof -
  assume "sched_inv st"
  then have s: "sched_inv (stopMonitoring st)" by (rule sched_inv_stop)
  then show ?thesis
    by (simp add: sched_inv_def handleScreenCaptureDetected_def Let_def active_timers_append)
qed

lemma sched_inv_callback: "sched_inv st \<Longrightarrow> sched_inv (intervalCallback e os response st)"
  using sched_inv_execs [OF execs_only_detect, of st e os]
  by (simp add: intervalCallback_def split_beta sched_inv_handle)

lemma sched_inv_step: "sched_inv st \<Longrightarrow> sched_inv (step e os x st)"
  by (cases x)
    (simp_all add: ipc_start_screen_protection_def ipc_stop_screen_protection_def
      sched_inv_start sched_inv_stop sched_inv_callback)

lemma run_snoc: "run e os (ops @ [x]) st = step e os x (run e os ops st)"
  by (simp add: run_def)

lemma sched_inv_run: "sched_inv st \<Longrightarrow> sched_inv (run e os ops st)"
  by (induction ops rule: rev_induct) (simp_all add: run_def sched_inv_step)

lemma stop_clears_timers: "sched_inv st \<Longrightarrow> active_timers (trace (stopMonitoring st)) = []"
  by (auto simp: sched_inv_def stopMonitoring_def active_timers_append split: option.splits)

section \<open>Facts about whole traces\<close>

lemma at_most_one_snoc:
  "at_most_one [] (tr @ evs) = (at_most_one [] tr \<and> at_most_one (active_timers tr) evs)"
  by (simp add: at_most_one_append active_timers_def)

lemma prompts_stopped_snoc:
  "prompts_stopped [] (tr @ evs) = (prompts_stopped [] tr \<and> prompts_stopped (active_timers tr) evs)"
  by (simp add: prompts_stopped_append active_timers_def)

lemma at_most_one_length: "at_most_one A evs \<Longrightarrow> length A \<le> 1"
  by (cases evs) auto

lemma at_most_one_final: "at_most_one A evs \<Longrightarrow> length (fold timer_event evs A) \<le> 1"
  by (induction evs arbitrary: A) auto

lemma at_most_one_active: "at_most_one [] tr \<Longrightarrow> length (active_timers tr) \<le> 1"
  unfolding active_timers_def by (rule at_most_one_final)

lemma at_most_one_start:
  "sched_inv st \<Longrightarrow> at_most_one [] (trace st) \<Longrightarrow> at_most_one [] (trace (startMonitoring e st))"
  by (auto simp: startMonitoring_trace at_most_one_snoc sched_inv_def split: option.splits)

lemma at_most_one_stop:
  "sched_inv st \<Longrightarrow> at_most_one [] (trace st) \<Longrightarrow> at_most_one [] (trace (stopMonitoring st))"
  by (auto simp: stopMonitoring_trace at_most_one_snoc sched_inv_def split: option.splits)

lemma at_most_one_execs_only:
  "execs_only st st' \<Longrightarrow> at_most_one [] (trace st) \<Longrightarrow> at_most_one [] (trace st')"
  using at_most_one_active [of "trace st"]
  by (auto simp: execs_only_def at_most_one_snoc at_most_one_execs)

lemma at_most_one_handle:
  "sched_inv st \<Longrightarrow> at_most_one [] (trace st) \<Longrightarrow>
   at_most_one [] (trace (handleScreenCaptureDetected response st))"
  using stop_clears_timers [of st] at_most_one_stop [of st]
  by (simp add: handle_trace at_most_one_snoc)

lemma prompts_stopped_start:
  "prompts_stopped [] (trace st) \<Longrightarrow> prompts_stopped [] (trace (startMonitoring e st))"
  by (simp add: startMonitoring_trace prompts_stopped_snoc)

lemma prompts_stopped_stop:
  "prompts_stopped [] (trace st) \<Longrightarrow> prompts_stopped [] (trace (stopMonitoring st))"
  by (auto simp: stopMonitoring_trace prompts_stopped_snoc split: option.splits)

lemma prompts_stopped_execs_only:
  "execs_only st st' \<Longrightarrow> prompts_stopped [] (trace st) \<Longrightarrow> prompts_stopped [] (trace st')"
  by (auto simp: execs_only_def prompts_stopped_snoc prompts_stopped_execs)

lemma prompts_stopped_handle:
  "sched_inv st \<Longrightarrow> prompts_stopped [] (trace st) \<Longrightarrow>
   prompts_stopped [] (trace (handleScreenCaptureDetected response st))"
  using stop_clears_timers [of st] prompts_stopped_stop [of st]
  by (simp add: handle_trace prompts_stopped_snoc)

lemma notifications_single [simp]:
  "notifications [] = 0"
  "notifications [ClearInterval h] = 0"
  "notifications [SetInterval h ms] = 0"
  "notifications [ShowMessageBox i] = 0"
  "notifications [Do a] = 0"
  "notifications [SetTimeout d a] = 0"
  by (simp_all add: notifications_def)

lemma notifications_start: "notifications (trace (startMonitoring e st)) = notifications (trace st)"
  by (simp add: startMonitoring_trace notifications_append)

lemma notifications_stop: "notifications (trace (stopMonitoring st)) = notifications (trace st)"
  by (simp add: stopMonitoring_trace notifications_append split: option.split)

lemma notifications_execs_only:
  "execs_only st st' \<Longrightarrow> notifications (trace st') = notifications (trace st)"
  by (auto simp: execs_only_def notifications_append notifications_execs)

lemma notifications_handle:
  "notifications (trace (handleScreenCaptureDetected response st)) = notifications (trace st)"
proof -
  have "notifications (trace (handleScreenCaptureDetected response st)) =
        notifications (trace (stopMonitoring st))"
    by (simp add: handle_trace notifications_append) (simp add: notifications_def)
  then show ?thesis by (simp add: notifications_stop)
qed

lemma notifications_callback:
  "notifications (trace (intervalCallback e os response st)) = notifications (trace st)"
  using notifications_execs_only [OF execs_only_detect [where st = st and e = e and os = os]]
  by (simp add: intervalCallback_def split_beta notifications_handle)

lemma notifications_step: "notifications (trace (step e os x st)) = notifications (trace st)"
  by (cases x)
    (simp_all add: ipc_start_screen_protection_def ipc_stop_screen_protection_def
      notifications_start notifications_stop notifications_callback)

lemma notifications_run: "notifications (trace (run e os ops st)) = notifications (trace st)"
  by (induction ops rule: rev_induct) (simp_all add: run_snoc notifications_step, simp add: run_def)

text \<open>The three properties of a trace that every step keeps.\<close>

lemma trace_ok_callback:
  assumes "sched_inv st" "at_most_one [] (trace st)" "prompts_stopped [] (trace st)"
  shows "at_most_one [] (trace (intervalCallback e os response st))
       \<and> prompts_stopped [] (trace (intervalCallback e os response st))"
proof -
  let ?st1 = "snd (detectScreenCapture e os st)"
  have x: "execs_only st ?st1" by (rule execs_only_detect)
  have i: "sched_inv ?st1" using x assms(1) by (rule sched_inv_execs)
  have a: "at_most_one [] (trace ?st1)" using x assms(2) by (rule at_most_one_execs_only)
  have p: "prompts_stopped [] (trace ?st1)" using x assms(3) by (rule prompts_stopped_execs_only)
  show ?thesis
    using a p at_most_one_handle [OF i a] prompts_stopped_handle [OF i p]
    by (simp add: intervalCallback_def split_beta)
qed

lemma trace_ok_step:
  assumes "sched_inv st" "at_most_one [] (trace st)" "prompts_stopped [] (trace st)"
  shows "at_most_one [] (trace (step e os x st)) \<and> prompts_stopped [] (trace (step e os x st))"
proof (cases x)
  case IpcStart
  have "sched_inv (st\<lparr>screenProtectionActive := True\<rparr>)" using assms(1) by simp
  then show ?thesis
    using assms IpcStart at_most_one_start [of "st\<lparr>screenProtectionActive := True\<rparr>" e]
      prompts_stopped_start [of "st\<lparr>screenProtectionActive := True\<rparr>" e]
    by (simp add: ipc_start_screen_protection_def)
next
  case IpcStop
  have "sched_inv (st\<lparr>screenProtectionActive := False\<rparr>)" using assms(1) by simp
  then show ?thesis
    using assms IpcStop at_most_one_stop [of "st\<lparr>screenProtectionActive := False\<rparr>"]
      prompts_stopped_stop [of "st\<lparr>screenProtectionActive := False\<rparr>"]
    by (simp add: ipc_stop_screen_protection_def)
next
  case (TimerFires response)
  then show ?thesis using assms trace_ok_callback [OF assms] by simp
qed

lemma trace_ok_run:
  "sched_inv (run e os ops initial)
   \<and> at_most_one [] (trace (run e os ops initial))
   \<and> prompts_stopped [] (trace (run e os ops initial))"
proof (induction ops rule: rev_induct)
  case Nil
  then show ?case by (simp add: run_def sched_inv_initial) (simp add: initial_def)
next
  case (snoc x ops)
  then show ?case
    using trace_ok_step [of "run e os ops initial" e os x] sched_inv_step [of "run e os ops initial" e os x]
    by (simp add: run_snoc)
qed

section \<open>Facts about the callback\<close>

lemma callback_emitted:
  "\<exists>cmds. emitted st (intervalCallback e os response st) =
     map Exec cmds @
       (if fst (detectScreenCapture e os st)
        then (if isMonitoring st
              then (case screenCaptureCheckInterval st of None \<Rightarrow> [] | Some h \<Rightarrow> [ClearInterval h])
              else [])
             @ [ShowMessageBox
                  (if detectedProcess (snd (detectScreenCapture e os st)) \<noteq> []
                   then [nl, nl] @ ''Detected process: ''
                        @ detectedProcess (snd (detectScreenCapture e os st))
                   else []),
                if response = 0 then Do AppQuit else SetTimeout 1000 AppQuit]
        else [])"
proof -
  let ?st1 = "snd (detectScreenCapture e os st)"
  have x: "execs_only st ?st1" by (rule execs_only_detect)
  from execs_only_fields(4) [OF x] obtain cmds where t: "trace ?st1 = trace st @ map Exec cmds"
    by blast
  have "emitted st (intervalCallback e os response st) =
     map Exec cmds @
       (if fst (detectScreenCapture e os st)
        then (if isMonitoring st
              then (case screenCaptureCheckInterval st of None \<Rightarrow> [] | Some h \<Rightarrow> [ClearInterval h])
              else [])
             @ [ShowMessageBox
                  (if detectedProcess ?st1 \<noteq> []
                   then [nl, nl] @ ''Detected process: '' @ detectedProcess ?st1
                   else []),
                if response = 0 then Do AppQuit else SetTimeout 1000 AppQuit]
        else [])"
    by (rule emitted_append)
      (simp add: intervalCallback_def split_beta handle_trace stopMonitoring_trace t
        execs_only_fields(1,2) [OF x])
  then show ?thesis by blast
qed

section \<open>Runs with the scheduler disabled\<close>

lemma disabled_step:
  assumes "DISABLE_SCREEN_PROTECTION e = Some ''true''"
    and "trace st = []" and "screenCaptureCheckInterval st = None"
  shows "trace (step e os x st) = [] \<and> screenCaptureCheckInterval (step e os x st) = None"
  using assms
  by (cases x)
    (simp_all add: ipc_start_screen_protection_def ipc_stop_screen_protection_def
      startMonitoring_def stopMonitoring_def active_timers_def)

lemma disabled_run:
  assumes "DISABLE_SCREEN_PROTECTION e = Some ''true''"
  shows "trace (run e os ops initial) = [] \<and> screenCaptureCheckInterval (run e os ops initial) = None"
proof (induction ops rule: rev_induct)
  case Nil
  then show ?case by (simp add: run_def initial_def)
next
  case (snoc x ops)
  then show ?case using disabled_step [OF assms] by (simp add: run_snoc)
qed

section \<open>Facts about what a step adds to the trace\<close>

lemma notifications_emitted:
  assumes "\<exists>evs. trace st' = trace st @ evs"
  shows "notifications (emitted st st') = notifications (trace st') - notifications (trace st)"
  using assms by (auto simp: emitted_def notifications_append)

lemma handle_extends: "\<exists>evs. trace (handleScreenCaptureDetected response st) = trace st @ evs"
  by (simp add: handle_trace stopMonitoring_trace)

lemma callback_extends: "\<exists>evs. trace (intervalCallback e os response st) = trace st @ evs"
proof -
  let ?st1 = "snd (detectScreenCapture e os st)"
  from execs_only_fields(4) [OF execs_only_detect] obtain cmds where
    t: "trace ?st1 = trace st @ map Exec cmds"
    by blast
  from handle_extends obtain evs where
    "trace (handleScreenCaptureDetected response ?st1) = trace ?st1 @ evs"
    by blast
  with t show ?thesis by (simp add: intervalCallback_def split_beta)
qed

section \<open>Facts about the regular expression\<close>

lemma lower_char_dot: "lower_char CHR ''.'' = CHR ''.''"
  by (simp add: lower_char_def)

lemma rx_prefix_ci:
  "list_all2 (\<lambda>a b. lower_char a = lower_char b) mid s \<Longrightarrow>
   rx_prefix (rx_of_string s) (map lower_char mid @ rest)"
proof (induction rule: list_all2_induct)
  case Nil
  then show ?case by (simp add: rx_of_string_def)
next
  case (Cons a mid b s)
  then show ?case
    by (auto simp: rx_of_string_def lower_char_idem lower_char_dot)
qed

lemma rx_test_append: "rx_prefix rs xs \<Longrightarrow> rx_test rs (pre @ xs)"
proof (induction pre)
  case Nil
  then show ?case by (cases xs) auto
next
  case (Cons p pre)
  then show ?case by simp
qed

lemma rx_test_ci: "ci_substring s P \<Longrightarrow> rx_test (rx_of_string s) (toLowerCase P)"
proof -
  assume "ci_substring s P"
  then obtain pre mid post where P: "P = pre @ mid @ post"
    and m: "list_all2 (\<lambda>a b. lower_char a = lower_char b) mid s"
    by (auto simp: ci_substring_def)
  have "rx_test (rx_of_string s) (map lower_char pre @ (map lower_char mid @ map lower_char post))"
    by (rule rx_test_append) (rule rx_prefix_ci [OF m])
  then show ?thesis by (simp add: P toLowerCase_def)
qed

lemma detectWindows_positive:
  assumes "os (length (trace st)) wmic_command = Some out" and "ci_substring ''winlogon.exe'' out"
  shows "fst (detectWindowsScreenCapture os st)"
  using assms rx_test_ci [OF assms(2)]
  by (simp add: detectWindowsScreenCapture_def execAsync_def captureProcesses_def Let_def)

section \<open>Facts about a pass\<close>

lemma emitted_self: "emitted st st = []"
  by (simp add: emitted_def)

lemma emitted_chain:
  assumes "execs_only a b" and "execs_only b c"
  shows "emitted a c = emitted a b @ emitted b c"
proof -
  from execs_only_fields(4) [OF assms(1)] obtain x where b: "trace b = trace a @ map Exec x"
    by blast
  from execs_only_fields(4) [OF assms(2)] obtain y where c: "trace c = trace b @ map Exec y"
    by blast
  show ?thesis by (simp add: emitted_def b c)
qed

lemma emitted_checkSpecific:
  "emitted st (snd (checkSpecificProcesses e os S st)) = [Exec (listing_command e)]"
  by (simp add: emitted_def checkSpecific_snd)

lemma emitted_checkSuspicious:
  "emitted st (snd (checkSuspiciousProcesses e os st)) = [Exec (listing_command e)]"
  by (simp add: emitted_def checkSuspicious_snd)

lemma emitted_windows: "emitted st (snd (detectWindowsScreenCapture os st)) = [Exec wmic_command]"
  by (simp add: emitted_def detectWindowsScreenCapture_def execAsync_def Let_def
      captureProcesses_def split: option.splits)

lemma delay_until_execs: "delay_until a (map Exec cmds @ evs) = delay_until a evs"
  by (induction cmds) auto

section \<open>Facts about the probe\<close>

lemma pgrep_loop_trace:
  "\<exists>cmds. trace (snd (pgrep_loop os ps st)) = trace st @ map Exec cmds
        \<and> set cmds \<subseteq> pgrep_command ` set ps
        \<and> (ps \<noteq> [] \<longrightarrow> cmds \<noteq> [] \<and> hd cmds = pgrep_command (hd ps))"
proof (induction ps arbitrary: st)
  case Nil
  then show ?case by simp
next
  case (Cons p ps)
  let ?st' = "st\<lparr>trace := trace st @ [Exec (pgrep_command p)]\<rparr>"
  from Cons [of ?st'] obtain cmds where
    t: "trace (snd (pgrep_loop os ps ?st')) = trace ?st' @ map Exec cmds"
    and s: "set cmds \<subseteq> pgrep_command ` set ps"
    by blast
  have stop: "trace ?st' = trace st @ map Exec [pgrep_command p]
      \<and> set [pgrep_command p] \<subseteq> pgrep_command ` set (p # ps)
      \<and> [pgrep_command p] \<noteq> [] \<and> hd [pgrep_command p] = pgrep_command (hd (p # ps))"
    by simp
  have go: "trace (snd (pgrep_loop os ps ?st')) = trace st @ map Exec (pgrep_command p # cmds)
      \<and> set (pgrep_command p # cmds) \<subseteq> pgrep_command ` set (p # ps)
      \<and> pgrep_command p # cmds \<noteq> [] \<and> hd (pgrep_command p # cmds) = pgrep_command (hd (p # ps))"
    using t s by auto
  have "snd (pgrep_loop os (p # ps) st) = ?st' \<or>
        snd (pgrep_loop os (p # ps) st) = snd (pgrep_loop os ps ?st')"
    by (simp add: execAsync_def split: option.splits)
  then show ?case
  proof
    assume "snd (pgrep_loop os (p # ps) st) = ?st'"
    with stop show ?thesis by (metis list.distinct(1))
  next
    assume "snd (pgrep_loop os (p # ps) st) = snd (pgrep_loop os ps ?st')"
    with go show ?thesis by (metis list.distinct(1))
  qed
qed

lemma single_exec_trace:
  "trace (snd (nonblank_output os cmd st)) = trace st @ map Exec [cmd]"
  "trace (snd (console_monitoring os st)) = trace st @ map Exec [lsof_console_command]"
  by (simp_all add: nonblank_output_def console_monitoring_def execAsync_def Let_def
      split: option.splits)

lemma macOS_trace:
  "\<exists>cmds. trace (snd (detectMacOSScreenCapture os st)) = trace st @ map Exec cmds
        \<and> set cmds \<subseteq> set probe_commands
        \<and> cmds \<noteq> [] \<and> hd cmds = pgrep_command ''screencapture''"
proof -
  let ?s1 = "snd (pgrep_loop os screenRecordingProcesses st)"
  let ?s2 = "snd (nonblank_output os lsof_grep_command ?s1)"
  let ?s3 = "snd (nonblank_output os ps_grep_command ?s2)"
  let ?s4 = "snd (console_monitoring os ?s3)"
  have ne: "screenRecordingProcesses \<noteq> []" and h: "hd screenRecordingProcesses = ''screencapture''"
    by (simp_all add: screenRecordingProcesses_def)
  from pgrep_loop_trace [of os screenRecordingProcesses st] ne h obtain c1 where
    t1: "trace ?s1 = trace st @ map Exec c1" and s1: "set c1 \<subseteq> set probe_commands"
    and n1: "c1 \<noteq> []" and h1: "hd c1 = pgrep_command ''screencapture''"
    by (auto simp: probe_commands_def)
  have t2: "trace ?s2 = trace st @ map Exec (c1 @ [lsof_grep_command])"
    by (simp add: single_exec_trace t1)
  have t3: "trace ?s3 = trace st @ map Exec (c1 @ [lsof_grep_command, ps_grep_command])"
    by (simp add: single_exec_trace t1)
  have t4: "trace ?s4 = trace st @ map Exec (c1 @ [lsof_grep_command, ps_grep_command, lsof_console_command])"
    by (simp add: single_exec_trace t1)
  have ok: "\<And>x. set x \<subseteq> {lsof_grep_command, ps_grep_command, lsof_console_command} \<Longrightarrow>
     set (c1 @ x) \<subseteq> set probe_commands \<and> c1 @ x \<noteq> [] \<and> hd (c1 @ x) = pgrep_command ''screencapture''"
    using s1 n1 h1 by (auto simp: probe_commands_def)
  have "snd (detectMacOSScreenCapture os st) \<in> {?s1, ?s2, ?s3, ?s4}"
    by (simp add: detectMacOSScreenCapture_def Let_def split_beta)
  then consider "snd (detectMacOSScreenCapture os st) = ?s1" | "snd (detectMacOSScreenCapture os st) = ?s2"
    | "snd (detectMacOSScreenCapture os st) = ?s3" | "snd (detectMacOSScreenCapture os st) = ?s4"
    by blast
  then show ?thesis
  proof cases
    case 1
    have "trace ?s1 = trace st @ map Exec (c1 @ [])" using t1 by simp
    moreover have "set (c1 @ []) \<subseteq> set probe_commands \<and> c1 @ [] \<noteq> []
        \<and> hd (c1 @ []) = pgrep_command ''screencapture''"
      by (rule ok) simp
    ultimately show ?thesis unfolding 1 by blast
  next
    case 2
    have "set (c1 @ [lsof_grep_command]) \<subseteq> set probe_commands \<and> c1 @ [lsof_grep_command] \<noteq> []
        \<and> hd (c1 @ [lsof_grep_command]) = pgrep_command ''screencapture''"
      by (rule ok) simp
    with t2 show ?thesis unfolding 2 by blast
  next
    case 3
    have "set (c1 @ [lsof_grep_command, ps_grep_command]) \<subseteq> set probe_commands
        \<and> c1 @ [lsof_grep_command, ps_grep_command] \<noteq> []
        \<and> hd (c1 @ [lsof_grep_command, ps_grep_command]) = pgrep_command ''screencapture''"
      by (rule ok) simp
    with t3 show ?thesis unfolding 3 by blast
  next
    case 4
    have "set (c1 @ [lsof_grep_command, ps_grep_command, lsof_console_command]) \<subseteq> set probe_commands
        \<and> c1 @ [lsof_grep_command, ps_grep_command, lsof_console_command] \<noteq> []
        \<and> hd (c1 @ [lsof_grep_command, ps_grep_command, lsof_console_command])
            = pgrep_command ''screencapture''"
      by (rule ok) simp
    with t4 show ?thesis unfolding 4 by blast
  qed
qed

lemma probe_commands_distinct:
  "''tasklist'' \<notin> set probe_commands" "''ps aux'' \<notin> set probe_commands"
  "wmic_command \<notin> set probe_commands"
  by code_simp+

lemma critical_obs:
  assumes "os (length (trace st)) (listing_command e) = Some P" and "ci_substring ''obs'' P"
  shows "fst (checkSpecificProcesses e os criticalProcesses st)"
proof -
  have l: "toLowerCase ''obs'' = ''obs''" by code_simp
  have ne: "\<forall>s\<in>set criticalProcesses. s \<noteq> []" using critical_lower by blast
  have "js_includes (toLowerCase P) ''obs''" using assms(2) by (simp add: lower_sig [OF l])
  moreover have "''obs'' \<in> set criticalProcesses" by (simp add: criticalProcesses_def)
  ultimately show ?thesis using assms(1) by (auto simp: checkSpecific_fst [OF ne])
qed

lemma probe_emitted:
  "if platform e = ''darwin''
   then \<exists>cmds. emitted st (snd (detectMacOSScreenCapture os st))
                 = map Exec (pgrep_command ''screencapture'' # cmds)
              \<and> set cmds \<subseteq> set probe_commands
   else emitted st st = []"
proof (cases "platform e = ''darwin''")
  case True
  from macOS_trace [of os st] obtain cmds where
    t: "trace (snd (detectMacOSScreenCapture os st)) = trace st @ map Exec cmds"
    and s: "set cmds \<subseteq> set probe_commands" and n: "cmds \<noteq> []"
    and h: "hd cmds = pgrep_command ''screencapture''"
    by blast
  from n h have c: "cmds = pgrep_command ''screencapture'' # tl cmds" by (cases cmds) auto
  have "emitted st (snd (detectMacOSScreenCapture os st)) = map Exec cmds"
    using t by (rule emitted_append)
  moreover have "set (tl cmds) \<subseteq> set probe_commands"
    using s n by (cases cmds) auto
  ultimately show ?thesis using True c by metis
next
  case False
  then show ?thesis by (simp add: emitted_self)
qed

section \<open>The claims\<close>

subsection \<open>C1: what the process scan answers\<close>




subsection \<open>C2: the order of the checks of a pass\<close>

text \<open>
  C2: a pass runs its checks in a fixed order and stops at the first positive one. With
  \<open>c\<close>, \<open>m\<close>, \<open>p\<close>, \<open>w\<close> the answers of the critical check, the probe of \<open>darwin\<close>, the
  full scan and the detector of \<open>win32\<close>, each started in the state its predecessor
  left: the pass answers \<open>c \<or> m \<or> (\<not> developmentMode \<and> (p \<or> w))\<close>; the commands it
  ran are the listing of the critical check first, in every mode; then, if that was
  negative, those of the probe (on \<open>darwin\<close>, in every mode, beginning with the first
  \<open>pgrep\<close>; none elsewhere); then, only outside development mode and if nothing was
  positive, the listing of the full scan and, if that was negative, the \<open>wmic\<close> listing
  (on \<open>win32\<close> only). In development mode \<open>wmic\<close> never runs and the listing command
  runs once. If the first listing holds \<open>obs\<close> up to case, the pass is positive in
  every mode, having run that one command.
\<close>

theorem detection_pass_order:
  "let L = listing_command e;
       (c, st1) = checkSpecificProcesses e os criticalProcesses st;
       (m, st2) = (if platform e = ''darwin'' then detectMacOSScreenCapture os st1 else (False, st1));
       (p, st3) = checkSuspiciousProcesses e os st2;
       (w, st4) = (if platform e = ''win32'' then detectWindowsScreenCapture os st3 else (False, st3));
       ran = emitted st (snd (detectScreenCapture e os st))
   in fst (detectScreenCapture e os st) = (c \<or> m \<or> (\<not> developmentMode e \<and> (p \<or> w)))
    \<and> ran = Exec L #
              (if c then []
               else emitted st1 st2 @
                    (if m \<or> developmentMode e then []
                     else Exec L # (if p then [] else emitted st3 st4)))
    \<and> (if platform e = ''darwin''
        then \<exists>cmds. emitted st1 st2 = map Exec (pgrep_command ''screencapture'' # cmds)
                   \<and> set cmds \<subseteq> set probe_commands
        else emitted st1 st2 = [])
    \<and> emitted st3 st4 = (if platform e = ''win32'' then [Exec wmic_command] else [])
    \<and> (developmentMode e \<longrightarrow> Exec wmic_command \<notin> set ran \<and> count_list ran (Exec L) = 1)
    \<and> (\<forall>P. os (length (trace st)) L = Some P \<longrightarrow> ci_substring ''obs'' P \<longrightarrow>
           fst (detectScreenCapture e os st) \<and> ran = [Exec L])"
proof -
  define L where "L = listing_command e"
  define c where "c = fst (checkSpecificProcesses e os criticalProcesses st)"
  define st1 where "st1 = snd (checkSpecificProcesses e os criticalProcesses st)"
  define probe where
    "probe = (if platform e = ''darwin'' then detectMacOSScreenCapture os st1 else (False, st1))"
  define m where "m = fst probe"
  define st2 where "st2 = snd probe"
  define p where "p = fst (checkSuspiciousProcesses e os st2)"
  define st3 where "st3 = snd (checkSuspiciousProcesses e os st2)"
  define win where
    "win = (if platform e = ''win32'' then detectWindowsScreenCapture os st3 else (False, st3))"
  define w where "w = fst win"
  define st4 where "st4 = snd win"
  define ran where "ran = emitted st (snd (detectScreenCapture e os st))"
  note defs = L_def c_def st1_def probe_def m_def st2_def p_def st3_def win_def w_def st4_def ran_def
  have x1: "execs_only st st1" unfolding st1_def by (rule execs_only_checkSpecific)
  have x2: "execs_only st1 st2"
    unfolding st2_def probe_def by (simp add: execs_only_macOS execs_only_refl)
  have x3: "execs_only st2 st3" unfolding st3_def by (rule execs_only_checkSuspicious)
  have x4: "execs_only st3 st4"
    unfolding st4_def win_def by (simp add: execs_only_windows execs_only_refl)
  have x12: "execs_only st st2" by (rule execs_only_trans [OF x1 x2])
  have x13: "execs_only st st3" by (rule execs_only_trans [OF x12 x3])
  have e1: "emitted st st1 = [Exec L]" unfolding st1_def L_def by (rule emitted_checkSpecific)
  have e2: "emitted st st2 = Exec L # emitted st1 st2"
    using emitted_chain [OF x1 x2] e1 by simp
  have e23: "emitted st2 st3 = [Exec L]" unfolding st3_def L_def by (rule emitted_checkSuspicious)
  have e3: "emitted st st3 = Exec L # emitted st1 st2 @ [Exec L]"
    using emitted_chain [OF x12 x3] e2 e23 by simp
  have e4: "emitted st st4 = Exec L # emitted st1 st2 @ Exec L # emitted st3 st4"
    using emitted_chain [OF x13 x4] e3 by simp
  have res: "detectScreenCapture e os st =
      (if c then (True, st1)
       else if m then (True, st2)
       else if developmentMode e then (False, st2)
       else if p then (True, st3) else (w, st4))"
    unfolding defs by (simp add: detectScreenCapture_def Let_def split_beta)
  have r1: "fst (detectScreenCapture e os st) = (c \<or> m \<or> (\<not> developmentMode e \<and> (p \<or> w)))"
    unfolding res by simp
  have r2: "ran = Exec L #
              (if c then []
               else emitted st1 st2 @
                    (if m \<or> developmentMode e then []
                     else Exec L # (if p then [] else emitted st3 st4)))"
    unfolding ran_def res using e1 e2 e3 e4 by simp
  have r3: "if platform e = ''darwin''
        then \<exists>cmds. emitted st1 st2 = map Exec (pgrep_command ''screencapture'' # cmds)
                   \<and> set cmds \<subseteq> set probe_commands
        else emitted st1 st2 = []"
    using probe_emitted [of e st1 os] unfolding st2_def probe_def by (simp split: if_splits)
  have r4: "emitted st3 st4 = (if platform e = ''win32'' then [Exec wmic_command] else [])"
    unfolding st4_def win_def by (simp add: emitted_windows emitted_self)
  have probe_only: "\<forall>ev\<in>set (emitted st1 st2). ev \<noteq> Exec wmic_command \<and> ev \<noteq> Exec L"
  proof (cases "platform e = ''darwin''")
    case True
    with r3 obtain cmds where
      em: "emitted st1 st2 = map Exec (pgrep_command ''screencapture'' # cmds)"
      and sub: "set cmds \<subseteq> set probe_commands"
      by auto
    have "pgrep_command ''screencapture'' \<in> set probe_commands"
      by (simp add: probe_commands_def screenRecordingProcesses_def)
    with sub have all: "set (pgrep_command ''screencapture'' # cmds) \<subseteq> set probe_commands"
      by simp
    have "L \<notin> set probe_commands" "wmic_command \<notin> set probe_commands"
      using probe_commands_distinct by (simp_all add: L_def listing_command_def)
    with all have "L \<notin> set (pgrep_command ''screencapture'' # cmds)"
      "wmic_command \<notin> set (pgrep_command ''screencapture'' # cmds)"
      by blast+
    then show ?thesis unfolding em by auto
  next
    case False
    with r3 show ?thesis by simp
  qed
  have r5: "Exec wmic_command \<notin> set ran \<and> count_list ran (Exec L) = 1" if "developmentMode e"
  proof -
    have "count_list (emitted st1 st2) (Exec L) = 0"
      using probe_only by (simp add: count_list_0_iff) blast
    moreover have "Exec wmic_command \<notin> set (emitted st1 st2)"
      using probe_only by blast
    moreover have "wmic_command \<noteq> L"
      by (simp add: wmic_command_def L_def listing_command_def)
    ultimately show ?thesis using that by (simp add: r2)
  qed
  have r6: "fst (detectScreenCapture e os st) \<and> ran = [Exec L]"
    if "os (length (trace st)) L = Some P" and "ci_substring ''obs'' P" for P
  proof -
    have "c" unfolding c_def
      using that [unfolded L_def]
      by (rule critical_obs [where os = os and st = st and e = e and P = P])
    then show ?thesis by (simp add: r1 r2)
  qed
  have final: "fst (detectScreenCapture e os st) = (c \<or> m \<or> (\<not> developmentMode e \<and> (p \<or> w)))
    \<and> ran = Exec L #
              (if c then []
               else emitted st1 st2 @
                    (if m \<or> developmentMode e then []
                     else Exec L # (if p then [] else emitted st3 st4)))
    \<and> (if platform e = ''darwin''
        then \<exists>cmds. emitted st1 st2 = map Exec (pgrep_command ''screencapture'' # cmds)
                   \<and> set cmds \<subseteq> set probe_commands
        else emitted st1 st2 = [])
    \<and> emitted st3 st4 = (if platform e = ''win32'' then [Exec wmic_command] else [])
    \<and> (developmentMode e \<longrightarrow> Exec wmic_command \<notin> set ran \<and> count_list ran (Exec L) = 1)
    \<and> (\<forall>P. os (length (trace st)) L = Some P \<longrightarrow> ci_substring ''obs'' P \<longrightarrow>
           fst (detectScreenCapture e os st) \<and> ran = [Exec L])"
    using r1 r2 r3 r4 r5 r6 by blast
  show ?thesis
    using final unfolding defs Let_def split_beta by blast
qed


theorem detection_pass_order_witness:
  "developmentMode win_dev
   \<and> ci_substring ''obs'' ''Image OBS64.exe 77''
   \<and> fst (detectScreenCapture win_dev (os_prints ''Image OBS64.exe 77'') initial)
   \<and> emitted initial (snd (detectScreenCapture win_dev (os_prints ''Image OBS64.exe 77'') initial))
       = [Exec ''tasklist'']
   \<and> developmentMode mac_dev
   \<and> Exec wmic_command \<notin> set (emitted initial (snd (detectScreenCapture mac_dev (os_prints []) initial)))
   \<and> count_list (emitted initial (snd (detectScreenCapture mac_dev (os_prints []) initial)))
        (Exec ''ps aux'') = 1"
proof -
  have d: "developmentMode win_dev" and dm: "developmentMode mac_dev"
    by (simp_all add: win_dev_def mac_dev_def)
  have l: "listing_command win_dev = ''tasklist''" and lm: "listing_command mac_dev = ''ps aux''"
    by (simp_all add: listing_command_def win_dev_def mac_dev_def)
  have o: "os_prints ''Image OBS64.exe 77'' (length (trace initial)) (listing_command win_dev)
           = Some ''Image OBS64.exe 77''"
    by (simp add: os_prints_def)
  have c: "ci_substring ''obs'' ''Image OBS64.exe 77''"
    unfolding ci_substring_iff by code_simp
  from detection_pass_order [of win_dev "os_prints ''Image OBS64.exe 77''" initial,
      unfolded Let_def split_beta]
  have "\<forall>P. os_prints ''Image OBS64.exe 77'' (length (trace initial)) (listing_command win_dev) = Some P
          \<longrightarrow> ci_substring ''obs'' P
          \<longrightarrow> fst (detectScreenCapture win_dev (os_prints ''Image OBS64.exe 77'') initial)
            \<and> emitted initial (snd (detectScreenCapture win_dev (os_prints ''Image OBS64.exe 77'') initial))
               = [Exec (listing_command win_dev)]"
    by (elim conjE)
  with o c have w1: "fst (detectScreenCapture win_dev (os_prints ''Image OBS64.exe 77'') initial)
            \<and> emitted initial (snd (detectScreenCapture win_dev (os_prints ''Image OBS64.exe 77'') initial))
               = [Exec ''tasklist'']"
    unfolding l by blast
  from detection_pass_order [of mac_dev "os_prints []" initial, unfolded Let_def split_beta]
  have "developmentMode mac_dev \<longrightarrow>
          Exec wmic_command \<notin> set (emitted initial (snd (detectScreenCapture mac_dev (os_prints []) initial)))
        \<and> count_list (emitted initial (snd (detectScreenCapture mac_dev (os_prints []) initial)))
            (Exec (listing_command mac_dev)) = 1"
    by (elim conjE)
  with dm have w2: "Exec wmic_command \<notin> set (emitted initial (snd (detectScreenCapture mac_dev (os_prints []) initial)))
        \<and> count_list (emitted initial (snd (detectScreenCapture mac_dev (os_prints []) initial)))
            (Exec ''ps aux'') = 1"
    unfolding lm by blast
  from d c w1 dm w2 show ?thesis by blast
qed

subsection \<open>C3: every answer to the prompt ends in the terminal action\<close>

text \<open>
  C3: whatever the user answers at the blocking prompt, the response schedules its
  terminal action after a bounded delay: \<open>app.quit\<close> in the main process (at most 600 ms
  after OK, at most 1100 ms after any other answer) and the logout in the renderer
  (at most 600 ms after a confirmation, at most 1100 ms otherwise). No branch leaves
  the event without its terminal action, and monitoring is not resumed.
\<close>

theorem response_always_terminates:
  "(\<exists>d. delay_until AppQuit (emitted st (handleScreenCaptureDetected response st)) = Some d
        \<and> d \<le> (if response = 0 then 600 else 1100))
   \<and> (\<exists>d. delay_until Logout (handleScreenshotDetected userConfirmed) = Some d
        \<and> d \<le> (if userConfirmed then 600 else 1100))
   \<and> isMonitoring (handleScreenCaptureDetected response st) = False"
  by (simp add: handle_delay renderer_delay handle_isMonitoring)

theorem response_always_terminates_witness:
  "delay_until AppQuit (emitted initial (handleScreenCaptureDetected 1 initial)) \<noteq> None
   \<and> delay_until Logout (handleScreenshotDetected False) \<noteq> None"
  using response_always_terminates [of initial 1 False] by auto

subsection \<open>C4: the two grace delays\<close>

text \<open>
  The claim as stated fails for the response of the main process: after OK
  (\<open>response = 0\<close>) the application quits at once, after Cancel it quits 1000 ms later,
  so the delay of the confirmation is the shorter one.
\<close>

theorem main_confirm_delay_not_longer_counterexample:
  "delay_until AppQuit (emitted initial (handleScreenCaptureDetected 0 initial)) = Some 0
   \<and> delay_until AppQuit (emitted initial (handleScreenCaptureDetected 1 initial)) = Some 1000
   \<and> \<not> (1000 :: nat) < 0"
  by (simp add: handle_delay)

text \<open>
  C4 (amended): in the renderer's response the delay before the logout is strictly
  longer after a confirmation than after a cancellation; in the response of the main
  process it is the other way round, the application quits at once after OK and
  strictly later after any other answer. In each response both answers lead to the
  same terminal action.
\<close>

theorem grace_delays:
  "(\<exists>confirm cancel.
       delay_until Logout (handleScreenshotDetected True) = Some confirm
     \<and> delay_until Logout (handleScreenshotDetected False) = Some cancel
     \<and> cancel < confirm)
   \<and> (\<exists>confirm cancel.
       delay_until AppQuit (emitted st (handleScreenCaptureDetected 0 st)) = Some confirm
     \<and> (\<forall>response. response \<noteq> 0 \<longrightarrow>
           delay_until AppQuit (emitted st (handleScreenCaptureDetected response st)) = Some cancel)
     \<and> confirm < cancel)
   \<and> delay_until Logout (handleScreenshotDetected True) = Some 500
   \<and> delay_until Logout (handleScreenshotDetected False) = Some 100
   \<and> delay_until AppQuit (emitted st (handleScreenCaptureDetected 0 st)) = Some 0
   \<and> (\<forall>response. response \<noteq> 0 \<longrightarrow>
         delay_until AppQuit (emitted st (handleScreenCaptureDetected response st)) = Some 1000)"
proof (intro conjI)
  have r: "delay_until Logout (handleScreenshotDetected True) = Some 500
      \<and> delay_until Logout (handleScreenshotDetected False) = Some 100 \<and> (100::nat) < 500"
    by (simp add: renderer_delay)
  then show "\<exists>confirm cancel.
       delay_until Logout (handleScreenshotDetected True) = Some confirm
     \<and> delay_until Logout (handleScreenshotDetected False) = Some cancel
     \<and> cancel < confirm"
    by blast
  have m: "delay_until AppQuit (emitted st (handleScreenCaptureDetected 0 st)) = Some 0
     \<and> (\<forall>response. response \<noteq> 0 \<longrightarrow>
           delay_until AppQuit (emitted st (handleScreenCaptureDetected response st)) = Some 1000)
     \<and> (0::nat) < 1000"
    by (simp add: handle_delay)
  then show "\<exists>confirm cancel.
       delay_until AppQuit (emitted st (handleScreenCaptureDetected 0 st)) = Some confirm
     \<and> (\<forall>response. response \<noteq> 0 \<longrightarrow>
           delay_until AppQuit (emitted st (handleScreenCaptureDetected response st)) = Some cancel)
     \<and> confirm < cancel"
    by blast
  show "delay_until Logout (handleScreenshotDetected True) = Some 500"
    and "delay_until Logout (handleScreenshotDetected False) = Some 100"
    using r by simp_all
  show "delay_until AppQuit (emitted st (handleScreenCaptureDetected 0 st)) = Some 0"
    and "\<forall>response. response \<noteq> 0 \<longrightarrow>
         delay_until AppQuit (emitted st (handleScreenCaptureDetected response st)) = Some 1000"
    using m by simp_all
qed

theorem grace_delays_witness:
  "delay_until AppQuit (emitted initial (handleScreenCaptureDetected 1 initial)) = Some 1000
   \<and> delay_until AppQuit (emitted initial (handleScreenCaptureDetected 0 initial)) = Some 0"
proof -
  from grace_delays [of initial] obtain confirm cancel where
    c: "delay_until AppQuit (emitted initial (handleScreenCaptureDetected 0 initial)) = Some confirm"
    and x: "\<forall>response. response \<noteq> 0 \<longrightarrow>
           delay_until AppQuit (emitted initial (handleScreenCaptureDetected response initial)) = Some cancel"
    and lt: "confirm < cancel"
    by blast
  have one: "(1::nat) \<noteq> 0" by simp
  from x one have x1: "delay_until AppQuit (emitted initial (handleScreenCaptureDetected 1 initial)) = Some cancel"
    by blast
  have "delay_until AppQuit (emitted initial (handleScreenCaptureDetected 1 initial)) = Some 1000"
    by code_simp
  moreover have "delay_until AppQuit (emitted initial (handleScreenCaptureDetected 0 initial)) = Some 0"
    by code_simp
  ultimately show ?thesis using c x1 lt by simp
qed

subsection \<open>C5: the scheduler is stopped before the prompt\<close>

text \<open>
  C5: whenever a pass is positive, the scheduler is stopped (the interval timer is
  cleared) before the message box is shown. In every run the message box is only shown
  while no interval timer is active; the callback of a positive pass clears the timer
  and then shows the box; and the response itself first stops monitoring, after which
  \<open>isMonitoring\<close> is false and no timer is active, and only then shows the box.
\<close>

theorem scheduler_stopped_before_prompt:
  "prompts_stopped [] (trace (run e os ops initial))
   \<and> (sched_inv st \<longrightarrow> fst (detectScreenCapture e os st) \<longrightarrow>
        (\<exists>cmds stops info rest.
            emitted st (intervalCallback e os response st)
              = map Exec cmds @ stops @ ShowMessageBox info # rest
          \<and> active_timers (trace st @ map Exec cmds @ stops) = []))
   \<and> trace (handleScreenCaptureDetected response st) =
        trace (stopMonitoring st)
          @ [ShowMessageBox (if detectedProcess st \<noteq> []
                             then [nl, nl] @ ''Detected process: '' @ detectedProcess st else []),
             if response = 0 then Do AppQuit else SetTimeout 1000 AppQuit]
   \<and> \<not> isMonitoring (stopMonitoring st)
   \<and> (sched_inv st \<longrightarrow> active_timers (trace (stopMonitoring st)) = [])"
proof (intro conjI impI)
  show "prompts_stopped [] (trace (run e os ops initial))"
    using trace_ok_run by blast
  show "trace (handleScreenCaptureDetected response st) =
        trace (stopMonitoring st)
          @ [ShowMessageBox (if detectedProcess st \<noteq> []
                             then [nl, nl] @ ''Detected process: '' @ detectedProcess st else []),
             if response = 0 then Do AppQuit else SetTimeout 1000 AppQuit]"
    by (rule handle_trace)
  show "\<not> isMonitoring (stopMonitoring st)"
    by (simp add: stopMonitoring_isMonitoring)
  show "active_timers (trace (stopMonitoring st)) = []" if "sched_inv st"
    using that by (rule stop_clears_timers)
  show "\<exists>cmds stops info rest.
            emitted st (intervalCallback e os response st)
              = map Exec cmds @ stops @ ShowMessageBox info # rest
          \<and> active_timers (trace st @ map Exec cmds @ stops) = []"
    if inv: "sched_inv st" and pos: "fst (detectScreenCapture e os st)"
  proof -
    let ?stops = "if isMonitoring st
              then (case screenCaptureCheckInterval st of None \<Rightarrow> [] | Some h \<Rightarrow> [ClearInterval h])
              else []"
    from callback_emitted [of st e os response] pos obtain cmds info rest where
      em: "emitted st (intervalCallback e os response st)
              = map Exec cmds @ ?stops @ ShowMessageBox info # rest"
      by auto
    have "active_timers (trace st @ map Exec cmds @ ?stops) = []"
      using inv
      by (auto simp: sched_inv_def active_timers_append fold_timer_execs split: option.splits)
    with em show ?thesis by blast
  qed
qed

theorem scheduler_stopped_before_prompt_witness:
  "sched_inv (startMonitoring win_prod initial)
   \<and> fst (detectScreenCapture win_prod (os_prints ''obs64.exe'') (startMonitoring win_prod initial))
   \<and> emitted (startMonitoring win_prod initial)
       (intervalCallback win_prod (os_prints ''obs64.exe'') 0 (startMonitoring win_prod initial))
     = [Exec ''tasklist'', ClearInterval 0, ShowMessageBox [], Do AppQuit]
   \<and> prompts_stopped [] (trace (run win_prod (os_prints ''obs64.exe'') [IpcStart, TimerFires 0] initial))"
proof -
  have i: "sched_inv (startMonitoring win_prod initial)"
    by (rule sched_inv_start [OF sched_inv_initial])
  have d: "fst (detectScreenCapture win_prod (os_prints ''obs64.exe'') (startMonitoring win_prod initial))"
    by code_simp
  have em: "emitted (startMonitoring win_prod initial)
       (intervalCallback win_prod (os_prints ''obs64.exe'') 0 (startMonitoring win_prod initial))
     = [Exec ''tasklist'', ClearInterval 0, ShowMessageBox [], Do AppQuit]"
    by code_simp
  from scheduler_stopped_before_prompt
    [of win_prod "os_prints ''obs64.exe''" "[IpcStart, TimerFires 0]" "startMonitoring win_prod initial" 0]
  have "prompts_stopped [] (trace (run win_prod (os_prints ''obs64.exe'') [IpcStart, TimerFires 0] initial))"
    by blast
  with i d em show ?thesis by blast
qed

subsection \<open>C6: the detector of win32 fires on \<open>winlogon.exe\<close>\<close>

text \<open>
  C6: the list of the detector of \<open>win32\<close> holds \<open>winlogon.exe\<close> alone. On \<open>win32\<close>
  outside development mode, whenever the \<open>wmic\<close> listing of a pass succeeds and holds
  \<open>winlogon.exe\<close> up to case, the pass is positive (already by an earlier check, or by
  this one), so the callback shows the message box and the application quits; the
  first cycle after a start is such a callback.
\<close>

theorem winlogon_always_detected:
  assumes "platform e = ''win32''" and "\<not> developmentMode e"
    and "os (length (trace st) + 2) wmic_command = Some out"
    and "ci_substring ''winlogon.exe'' out"
  shows "captureProcesses = [''winlogon.exe'']
     \<and> fst (detectScreenCapture e os st)
     \<and> (\<exists>info. ShowMessageBox info \<in> set (emitted st (intervalCallback e os response st)))
     \<and> delay_until AppQuit (emitted st (intervalCallback e os response st))
         = Some (if response = 0 then 0 else 1000)
     \<and> (DISABLE_SCREEN_PROTECTION e \<noteq> Some ''true'' \<longrightarrow>
          run e os [IpcStart, TimerFires response] initial
            = intervalCallback e os response (snd (ipc_start_screen_protection e initial)))"
proof -
  have first: "run e os [IpcStart, TimerFires response] initial
            = intervalCallback e os response (snd (ipc_start_screen_protection e initial))"
    if "DISABLE_SCREEN_PROTECTION e \<noteq> Some ''true''"
    using that
    by (simp add: run_def ipc_start_screen_protection_def startMonitoring_def initial_def
        active_timers_def Let_def)
  let ?st1 = "snd (checkSpecificProcesses e os criticalProcesses st)"
  let ?st3 = "snd (checkSuspiciousProcesses e os ?st1)"
  have len: "length (trace ?st3) = length (trace st) + 2"
    by (simp add: checkSpecific_snd checkSuspicious_snd)
  have w: "fst (detectWindowsScreenCapture os ?st3)"
    by (rule detectWindows_positive [OF _ assms(4)]) (simp only: len assms(3))
  have d: "fst (detectScreenCapture e os st)"
    using assms(1,2) w by (simp add: detectScreenCapture_def Let_def split_beta)
  from callback_emitted [of st e os response] d obtain cmds stops info where
    em: "emitted st (intervalCallback e os response st) =
           map Exec cmds @ stops
             @ [ShowMessageBox info, if response = 0 then Do AppQuit else SetTimeout 1000 AppQuit]"
    and stops: "stops = (if isMonitoring st
              then (case screenCaptureCheckInterval st of None \<Rightarrow> [] | Some h \<Rightarrow> [ClearInterval h])
              else [])"
    by auto
  have box: "\<exists>info. ShowMessageBox info \<in> set (emitted st (intervalCallback e os response st))"
    unfolding em by auto
  have quit: "delay_until AppQuit (emitted st (intervalCallback e os response st))
         = Some (if response = 0 then 0 else 1000)"
    unfolding em by (simp add: delay_until_execs stops split: option.splits)
  show ?thesis using d box quit first by (simp add: captureProcesses_def)
qed

theorem winlogon_always_detected_witness:
  "platform win_prod = ''win32'' \<and> \<not> developmentMode win_prod
   \<and> ci_substring ''winlogon.exe'' ''System Idle Process  0 WinLogon.exe  612''
   \<and> fst (detectScreenCapture win_prod (os_prints ''System Idle Process  0 WinLogon.exe  612'')
            (startMonitoring win_prod initial))
   \<and> emitted (startMonitoring win_prod initial)
        (intervalCallback win_prod (os_prints ''System Idle Process  0 WinLogon.exe  612'') 0
           (startMonitoring win_prod initial))
      = [Exec ''tasklist'', Exec ''tasklist'', Exec ''wmic process get name,processid'',
         ClearInterval 0,
         ShowMessageBox ([nl, nl] @ ''Detected process: winlogon.exe''), Do AppQuit]"
proof -
  have p: "platform win_prod = ''win32''" and d: "\<not> developmentMode win_prod"
    by (simp_all add: win_prod_def)
  have o: "os_prints ''System Idle Process  0 WinLogon.exe  612''
             (length (trace (startMonitoring win_prod initial)) + 2) wmic_command
           = Some ''System Idle Process  0 WinLogon.exe  612''"
    by (simp add: os_prints_def)
  have c: "ci_substring ''winlogon.exe'' ''System Idle Process  0 WinLogon.exe  612''"
    unfolding ci_substring_iff by code_simp
  have em: "emitted (startMonitoring win_prod initial)
        (intervalCallback win_prod (os_prints ''System Idle Process  0 WinLogon.exe  612'') 0
           (startMonitoring win_prod initial))
      = [Exec ''tasklist'', Exec ''tasklist'', Exec ''wmic process get name,processid'',
         ClearInterval 0,
         ShowMessageBox ([nl, nl] @ ''Detected process: winlogon.exe''), Do AppQuit]"
    by code_simp
  from winlogon_always_detected
    [where e = win_prod and os = "os_prints ''System Idle Process  0 WinLogon.exe  612''"
       and st = "startMonitoring win_prod initial" and response = 0
       and out = "''System Idle Process  0 WinLogon.exe  612''", OF p d o c]
    p d c em
  show ?thesis by blast
qed

subsection \<open>C7: the notification to the presentation layer\<close>

text \<open>
  C7: for every detected capture event the core is to fire the notification to the
  presentation layer once. The renderer's hook is ready for it: it registers a
  listener on the channels \<open>screen-capture-detected\<close> and \<open>screenshot-detected\<close>, which
  runs \<open>handleScreenshotDetected\<close>. The main process misses the send. Where the
  listing holds \<open>obs64.exe\<close>, the pass is positive and the callback clears the timer,
  shows the message box and quits: it sends no notification, where the claim asks
  for one.
\<close>

theorem positive_pass_sends_no_notification:
  "fst (detectScreenCapture win_prod (os_prints ''obs64.exe'') (startMonitoring win_prod initial))
   \<and> notifications
        (emitted (startMonitoring win_prod initial)
           (intervalCallback win_prod (os_prints ''obs64.exe'') 0 (startMonitoring win_prod initial)))
       = 0
   \<and> emitted (startMonitoring win_prod initial)
        (intervalCallback win_prod (os_prints ''obs64.exe'') 0 (startMonitoring win_prod initial))
       = [Exec ''tasklist'', ClearInterval 0, ShowMessageBox [], Do AppQuit]
   \<and> ipc_listener ''screen-capture-detected'' True
       = [ToastError, WindowConfirm, SetTimeout 500 Logout]
   \<and> ipc_listener ''screenshot-detected'' False
       = [ToastError, WindowConfirm, SetTimeout 100 Logout]"
  by code_simp

subsection \<open>C8: one interval timer\<close>

text \<open>
  The claim as stated fails where the environment disables the scheduler: with
  \<open>DISABLE_SCREEN_PROTECTION\<close> set to \<open>true\<close> two successive starts leave no active
  timer, not exactly one, while the scheduler counts as monitoring.
\<close>

theorem two_starts_disabled_counterexample:
  "DISABLE_SCREEN_PROTECTION linux_disabled = Some ''true''
   \<and> active_timers (trace (startMonitoring linux_disabled (startMonitoring linux_disabled initial))) = []
   \<and> isMonitoring (startMonitoring linux_disabled (startMonitoring linux_disabled initial))"
  by code_simp

text \<open>
  C8 (amended): at most one interval timer is active at any time of any run;
  \<open>startMonitoring\<close> while monitoring and \<open>stopMonitoring\<close> while stopped change nothing;
  two successive starts of a stopped scheduler yield exactly one active timer unless
  \<open>DISABLE_SCREEN_PROTECTION\<close> is \<open>true\<close>, in which case they yield none; two successive
  stops yield no active timer. Neither function has a failure to report.
\<close>

theorem at_most_one_interval_timer:
  "at_most_one [] (trace (run e os ops initial))
   \<and> sched_inv (run e os ops initial)
   \<and> (isMonitoring st \<longrightarrow> startMonitoring e st = st)
   \<and> (\<not> isMonitoring st \<longrightarrow> stopMonitoring st = st)
   \<and> (sched_inv st \<longrightarrow> \<not> isMonitoring st \<longrightarrow>
        length (active_timers (trace (startMonitoring e (startMonitoring e st))))
          = (if DISABLE_SCREEN_PROTECTION e = Some ''true'' then 0 else 1))
   \<and> (sched_inv st \<longrightarrow> active_timers (trace (stopMonitoring (stopMonitoring st))) = [])"
proof (intro conjI impI)
  show "at_most_one [] (trace (run e os ops initial))" using trace_ok_run by blast
  show "sched_inv (run e os ops initial)" using trace_ok_run by blast
  show "startMonitoring e st = st" if "isMonitoring st"
    using that by (rule startMonitoring_idem)
  show "stopMonitoring st = st" if "\<not> isMonitoring st"
    using that by (rule stopMonitoring_idem)
  show "length (active_timers (trace (startMonitoring e (startMonitoring e st))))
          = (if DISABLE_SCREEN_PROTECTION e = Some ''true'' then 0 else 1)"
    if "sched_inv st" and "\<not> isMonitoring st"
  proof -
    have "startMonitoring e (startMonitoring e st) = startMonitoring e st"
      by (rule startMonitoring_idem) (rule startMonitoring_isMonitoring)
    moreover have "active_timers (trace st) = []"
      using that by (auto simp: sched_inv_def)
    ultimately show ?thesis
      using that by (simp add: startMonitoring_trace active_timers_append)
  qed
  show "active_timers (trace (stopMonitoring (stopMonitoring st))) = []" if "sched_inv st"
  proof -
    have "stopMonitoring (stopMonitoring st) = stopMonitoring st"
      by (rule stopMonitoring_idem) (simp add: stopMonitoring_isMonitoring)
    then show ?thesis using that by (simp add: stop_clears_timers)
  qed
qed

theorem at_most_one_interval_timer_witness:
  "sched_inv initial \<and> \<not> isMonitoring initial
   \<and> length (active_timers (trace (startMonitoring win_prod (startMonitoring win_prod initial)))) = 1
   \<and> isMonitoring (startMonitoring win_prod initial)
   \<and> startMonitoring win_prod (startMonitoring win_prod initial) = startMonitoring win_prod initial
   \<and> stopMonitoring initial = initial
   \<and> active_timers (trace (stopMonitoring (stopMonitoring (startMonitoring win_prod initial)))) = []"
proof -
  have i: "sched_inv initial" by (rule sched_inv_initial)
  have n: "\<not> isMonitoring initial" by (simp add: initial_def)
  have m: "isMonitoring (startMonitoring win_prod initial)" by (rule startMonitoring_isMonitoring)
  have f: "DISABLE_SCREEN_PROTECTION win_prod \<noteq> Some ''true''" by (simp add: win_prod_def)
  have i2: "sched_inv (startMonitoring win_prod initial)" by (rule sched_inv_start [OF i])
  from at_most_one_interval_timer [of win_prod "os_prints []" "[]" initial] i n f
  have a: "length (active_timers (trace (startMonitoring win_prod (startMonitoring win_prod initial)))) = 1"
    and b: "stopMonitoring initial = initial"
    by simp_all
  from at_most_one_interval_timer [of win_prod "os_prints []" "[]" "startMonitoring win_prod initial"] m i2
  have c: "startMonitoring win_prod (startMonitoring win_prod initial) = startMonitoring win_prod initial"
    and d: "active_timers (trace (stopMonitoring (stopMonitoring (startMonitoring win_prod initial)))) = []"
    by simp_all
  from i n a m c b d show ?thesis by blast
qed

subsection \<open>C9: the scheduler disabled by the environment\<close>

text \<open>
  C9: with \<open>DISABLE_SCREEN_PROTECTION\<close> set to \<open>true\<close>, \<open>startMonitoring\<close> only marks the
  scheduler as monitoring: it creates no timer, so in no run does a timer fire or a
  command run (the trace stays empty). The handler of \<open>start-screen-protection\<close>
  reports success with the session active, and a further start changes nothing, in
  the main process as in the renderer's hook.
\<close>

theorem disabled_scheduler_reports_running:
  assumes "DISABLE_SCREEN_PROTECTION e = Some ''true''"
  shows "(\<not> isMonitoring st \<longrightarrow> startMonitoring e st = st\<lparr>isMonitoring := True\<rparr>)
   \<and> trace (run e os ops initial) = []
   \<and> process_listings (trace (run e os ops initial)) = 0
   \<and> active_timers (trace (run e os ops initial)) = []
   \<and> success (fst (ipc_start_screen_protection e st))
   \<and> screenProtectionActive (snd (ipc_start_screen_protection e st))
   \<and> isMonitoring (snd (ipc_start_screen_protection e st))
   \<and> snd (ipc_start_screen_protection e (snd (ipc_start_screen_protection e st)))
       = snd (ipc_start_screen_protection e st)
   \<and> fst (startProtection True e (False, st))
   \<and> startProtection True e (startProtection True e (False, st))
       = startProtection True e (False, st)"
proof -
  have t: "trace (run e os ops initial) = []" using disabled_run [OF assms] by blast
  have s: "isMonitoring (startMonitoring e (st\<lparr>screenProtectionActive := True\<rparr>))"
    by (rule startMonitoring_isMonitoring)
  show ?thesis
    using assms t s
    by (simp add: process_listings_def active_timers_def ipc_start_screen_protection_def
        startProtection_def startMonitoring_idem)
      (simp add: startMonitoring_def)
qed

theorem disabled_scheduler_reports_running_witness:
  "DISABLE_SCREEN_PROTECTION linux_disabled = Some ''true''
   \<and> trace (run linux_disabled (os_prints ''obs'') [IpcStart, TimerFires 0, IpcStart, TimerFires 0] initial) = []
   \<and> isMonitoring (run linux_disabled (os_prints ''obs'') [IpcStart, TimerFires 0, IpcStart, TimerFires 0] initial)
   \<and> success (fst (ipc_start_screen_protection linux_disabled initial))"
proof -
  have f: "DISABLE_SCREEN_PROTECTION linux_disabled = Some ''true''" by (simp add: linux_disabled_def)
  have m: "isMonitoring (run linux_disabled (os_prints ''obs'') [IpcStart, TimerFires 0, IpcStart, TimerFires 0] initial)"
    by code_simp
  from disabled_scheduler_reports_running [OF f, of initial "os_prints ''obs''" "[IpcStart, TimerFires 0, IpcStart, TimerFires 0]"] f m
  show ?thesis by simp
qed

subsection \<open>C10: no permission gating off darwin\<close>

text \<open>
  C10: on every platform other than \<open>darwin\<close>, checking and requesting the permission
  (the two methods and the two handlers) answer true and leave the state and the
  trace as they were: no permission query and no consent prompt is issued.
\<close>

theorem no_gating_off_darwin:
  "platform e \<noteq> ''darwin'' \<Longrightarrow>
     checkMacOSScreenRecordingPermission e status st = (True, st)
   \<and> requestMacOSScreenRecordingPermission e sources st = (True, st)
   \<and> ipc_check_screen_permission e status st = (True, st)
   \<and> ipc_request_screen_permission e sources st = (True, st)"
  by (simp add: checkMacOSScreenRecordingPermission_def requestMacOSScreenRecordingPermission_def
      ipc_check_screen_permission_def ipc_request_screen_permission_def)

theorem no_gating_off_darwin_witness:
  "platform win_prod \<noteq> ''darwin''
   \<and> checkMacOSScreenRecordingPermission win_prod None initial = (True, initial)
   \<and> requestMacOSScreenRecordingPermission win_prod None initial = (True, initial)
   \<and> ipc_check_screen_permission win_prod (Some ''denied'') initial = (True, initial)
   \<and> ipc_request_screen_permission win_prod (Some 0) initial = (True, initial)"
proof -
  have p: "platform win_prod \<noteq> ''darwin''" by (simp add: win_prod_def)
  from no_gating_off_darwin [OF p] p show ?thesis by simp
qed

end
